theory Spec2Isabelle
  imports Complex_Main "HOL-Library.Word"
begin

section \<open>Numbers, colours and pixel buffers\<close>

text \<open>
  The effect engine works on JavaScript numbers, on \<^verbatim>\<open>Uint8ClampedArray\<close> pixel
  buffers (\<^verbatim>\<open>ImageData.data\<close>) and on \<^verbatim>\<open>Float32Array\<close> scratch buffers.

  \<^item> A JavaScript number is modelled by a \<^typ>\<open>real\<close>: arithmetic is exact, the
    rounding of IEEE doubles and of \<^verbatim>\<open>Float32Array\<close> stores is not modelled.
    Integer-valued quantities (coordinates, sizes, loop counters, bytes) are
    \<^typ>\<open>nat\<close> or \<^typ>\<open>int\<close>.
  \<^item> A pixel buffer is a list of bytes (\<open>8 word\<close>), four per pixel (R, G, B, A), row
    major. Reading an element \<open>b\<close> gives the number \<open>byteVal b\<close>, between 0 and 255. A store into it goes
    through \<open>toUint8Clamp\<close>, the conversion the typed array applies (clamp to 0..255,
    round half to even). A store outside the array is ignored by JavaScript, which is
    what list update \<open>xs[i := v]\<close> does.
  \<^item> \<^verbatim>\<open>type Color = [number, number, number]\<close> is a triple of reals.
  \<^item> \<^verbatim>\<open>getImageData(0, 0, width, height).data\<close> always has
    \<open>4 * width * height\<close> elements; the theorems about whole buffers assume a
    length of that form.
\<close>

type_synonym byte = "8 word"

type_synonym color = "real \<times> real \<times> real"

abbreviation byteVal :: "byte \<Rightarrow> real" where
  "byteVal b \<equiv> unsigned b"

datatype error = TypeError | DivisionByZero

definition toUint8Clamp :: "real \<Rightarrow> byte" where
  "toUint8Clamp v =
     (if v \<le> 0 then 0
      else if 255 \<le> v then 255
      else (let f = \<lfloor>v\<rfloor>; r = v - of_int f
            in word_of_int (if r < 1 / 2 then f
                            else if 1 / 2 < r then f + 1
                            else if even f then f else f + 1)))"

text \<open>An 8-bit channel value seen as a number: an integer between 0 and 255.\<close>

definition isByte :: "real \<Rightarrow> bool" where
  "isByte v = (0 \<le> v \<and> v \<le> 255 \<and> of_int \<lfloor>v\<rfloor> = v)"

fun isByteColor :: "color \<Rightarrow> bool" where
  "isByteColor (r, g, b) = (isByte r \<and> isByte g \<and> isByte b)"

text \<open>The luminance every effect computes inline: \<^verbatim>\<open>0.2126 * r + 0.7152 * g + 0.0722 * b\<close>.\<close>

definition brightness :: "real \<Rightarrow> real \<Rightarrow> real \<Rightarrow> real" where
  "brightness r g b = 0.2126 * r + 0.7152 * g + 0.0722 * b"

section \<open>Colour utilities\<close>

subsection \<open>findClosestColor\<close>

text \<open>
  \<^verbatim>\<open>
  const findClosestColor = (color: Color, palette: Color[]): Color => {
    let closestColor = palette[0];
    let minDistance = Infinity;
    for (const paletteColor of palette) {
      const distance = Math.pow(color[0] - paletteColor[0], 2) + ... ;
      if (distance < minDistance) { minDistance = distance; closestColor = paletteColor; }
    }
    return closestColor;
  };
  \<close>
  \<open>minDistance\<close> is a \<^typ>\<open>real option\<close> with \<open>None\<close> for \<^verbatim>\<open>Infinity\<close>;
  \<open>closestColor\<close> is a \<^typ>\<open>color option\<close> with \<open>None\<close> for the \<^verbatim>\<open>undefined\<close>
  that \<^verbatim>\<open>palette[0]\<close> yields on an empty palette.
\<close>

fun distance :: "color \<Rightarrow> color \<Rightarrow> real" where
  "distance (r, g, b) (pr, pg, pb) = (r - pr)\<^sup>2 + (g - pg)\<^sup>2 + (b - pb)\<^sup>2"

fun lessThanMin :: "real \<Rightarrow> real option \<Rightarrow> bool" where
  "lessThanMin d None = True"
| "lessThanMin d (Some m) = (d < m)"

fun closestLoop :: "color \<Rightarrow> color list \<Rightarrow> color option \<Rightarrow> real option \<Rightarrow> color option" where
  "closestLoop color [] closestColor minDistance = closestColor"
| "closestLoop color (paletteColor # rest) closestColor minDistance =
     (if lessThanMin (distance color paletteColor) minDistance
      then closestLoop color rest (Some paletteColor) (Some (distance color paletteColor))
      else closestLoop color rest closestColor minDistance)"

definition findClosestColor :: "color \<Rightarrow> color list \<Rightarrow> color option" where
  "findClosestColor color palette =
     closestLoop color palette (case palette of [] \<Rightarrow> None | p # _ \<Rightarrow> Some p) None"

definition JUSTICE_PALETTE :: "color list" where
  "JUSTICE_PALETTE = [(13, 33, 108), (255, 147, 0), (215, 235, 188), (0, 0, 0)]"

subsection \<open>rgbToCmyk\<close>

text \<open>
  \<^verbatim>\<open>
  const rgbToCmyk = (r, g, b) => {
    let c = 1 - (r / 255); let m = 1 - (g / 255); let y = 1 - (b / 255);
    const k = Math.min(c, m, y);
    if (k === 1) { return [0, 0, 0, 1]; }
    c = (c - k) / (1 - k); m = (m - k) / (1 - k); y = (y - k) / (1 - k);
    return [c, m, y, k];
  };
  \<close>
  The three divisions by \<open>1 - k\<close> go through \<open>divide_checked\<close>, which reports a zero
  divisor as the value \<open>Inl DivisionByZero\<close>, so that reaching a division by zero is
  an observable result of the model. The division by the constant 255 is plain.
\<close>

definition divide_checked :: "real \<Rightarrow> real \<Rightarrow> error + real" where
  "divide_checked a b = (if b = 0 then Inl DivisionByZero else Inr (a / b))"

definition rgbToCmyk :: "real \<Rightarrow> real \<Rightarrow> real \<Rightarrow> error + (real \<times> real \<times> real \<times> real)" where
  "rgbToCmyk r g b =
     (let c = 1 - r / 255; m = 1 - g / 255; y = 1 - b / 255;
          k = min (min c m) y
      in if k = 1 then Inr (0, 0, 0, 1)
         else (case divide_checked (c - k) (1 - k) of
                 Inl e \<Rightarrow> Inl e
               | Inr c' \<Rightarrow>
                   (case divide_checked (m - k) (1 - k) of
                      Inl e \<Rightarrow> Inl e
                    | Inr m' \<Rightarrow>
                        (case divide_checked (y - k) (1 - k) of
                           Inl e \<Rightarrow> Inl e
                         | Inr y' \<Rightarrow> Inr (c', m', y', k)))))"

section \<open>ASCII art: from block brightness to symbol\<close>

text \<open>
  The symbol string is a list of UTF-16 code units (what \<^verbatim>\<open>length\<close> and indexing
  count in JavaScript). \<^verbatim>\<open>chars[charIndex]\<close> is \<^verbatim>\<open>undefined\<close> outside the
  string: \<open>None\<close> here.
  \<^verbatim>\<open>
  const chars = userChars && userChars.length > 0 ? userChars : ' ';
  ...
  const step = Math.floor(avgBrightness * brightnessSteps / 256);
  const charIndex = Math.min(step, chars.length - 1);
  const char = chars[charIndex];
  \<close>
\<close>

definition asciiChars :: "nat list \<Rightarrow> nat list" where
  "asciiChars userChars = (if userChars \<noteq> [] \<and> length userChars > 0 then userChars else [32])"

definition asciiStep :: "real \<Rightarrow> int \<Rightarrow> int" where
  "asciiStep avgBrightness brightnessSteps = \<lfloor>avgBrightness * of_int brightnessSteps / 256\<rfloor>"

definition asciiCharIndex :: "real \<Rightarrow> int \<Rightarrow> nat list \<Rightarrow> int" where
  "asciiCharIndex avgBrightness brightnessSteps userChars =
     min (asciiStep avgBrightness brightnessSteps) (int (length (asciiChars userChars)) - 1)"

definition charAt :: "nat list \<Rightarrow> int \<Rightarrow> nat option" where
  "charAt chars i = (if 0 \<le> i \<and> i < int (length chars) then Some (chars ! nat i) else None)"

definition asciiChar :: "real \<Rightarrow> int \<Rightarrow> nat list \<Rightarrow> nat option" where
  "asciiChar avgBrightness brightnessSteps userChars =
     charAt (asciiChars userChars) (asciiCharIndex avgBrightness brightnessSteps userChars)"

section \<open>Loops\<close>

text \<open>
  A loop \<^verbatim>\<open>for (let i = start; i < bound; i += stride)\<close> runs its body for the values
  \<open>indicesFrom start stride bound\<close> of \<open>i\<close>, in that order; the state it mutates is
  folded through the body. Every stride of the source is at least 1 (the constants 2 and
  4, or a size passed through \<^verbatim>\<open>Math.max(1, ...)\<close>). A unit-stride loop from 0 runs
  over \<open>[0..<bound]\<close>.
\<close>

function indicesFrom :: "nat \<Rightarrow> nat \<Rightarrow> nat \<Rightarrow> nat list" where
  "indicesFrom i stride bound =
     (if i < bound \<and> 0 < stride then i # indicesFrom (i + stride) stride bound else [])"
  by pat_completeness auto
termination
  by (relation "measure (\<lambda>(i, stride, bound). bound - i)") auto

declare indicesFrom.simps [simp del]

text \<open>
  A body that can throw works on \<open>error + 's\<close>: once an exception is thrown (\<open>Inl\<close>) no
  later iteration changes anything.
\<close>

definition throwing :: "('s \<Rightarrow> error + 's) \<Rightarrow> error + 's \<Rightarrow> error + 's" where
  "throwing body st = (case st of Inl e \<Rightarrow> Inl e | Inr s \<Rightarrow> body s)"

text \<open>A pixel buffer seen as its list of pixels.\<close>

type_synonym pixel = "byte \<times> byte \<times> byte \<times> byte"

fun pixelBytes :: "pixel list \<Rightarrow> byte list" where
  "pixelBytes [] = []"
| "pixelBytes ((r, g, b, a) # ps) = r # g # b # a # pixelBytes ps"

section \<open>Point-threshold effects\<close>

text \<open>
  Both effects run \<^verbatim>\<open>for (let i = 0; i < data.length; i += 4)\<close> over the buffer.
  \<^verbatim>\<open>
  const brightness = 0.2126 * data[i] + 0.7152 * data[i+1] + 0.0722 * data[i+2];
  const color = brightness > level ? 255 : 0;          // Threshold
  const color = brightness > level ? brightness : 0;   // Grayscale
  data[i] = color; data[i + 1] = color; data[i + 2] = color;
  \<close>
  \<open>brightnessAt\<close> is \<open>None\<close> for the \<^verbatim>\<open>NaN\<close> that a read past the end of the
  buffer produces; a comparison with \<^verbatim>\<open>NaN\<close> is false.
\<close>

definition brightnessAt :: "byte list \<Rightarrow> nat \<Rightarrow> real option" where
  "brightnessAt data i =
     (if i + 2 < length data
      then Some (brightness (byteVal (data ! i)) (byteVal (data ! (i + 1))) (byteVal (data ! (i + 2))))
      else None)"

definition thresholdPixel :: "real \<Rightarrow> nat \<Rightarrow> byte list \<Rightarrow> byte list" where
  "thresholdPixel level i data =
     (let color = (case brightnessAt data i of
                     Some br \<Rightarrow> if br > level then 255 else 0
                   | None \<Rightarrow> 0)
      in data[i := toUint8Clamp color, i + 1 := toUint8Clamp color, i + 2 := toUint8Clamp color])"

definition threshold_processor :: "real \<Rightarrow> byte list \<Rightarrow> byte list" where
  "threshold_processor level data =
     fold (thresholdPixel level) (indicesFrom 0 4 (length data)) data"

definition grayscalePixel :: "real \<Rightarrow> nat \<Rightarrow> byte list \<Rightarrow> byte list" where
  "grayscalePixel level i data =
     (let color = (case brightnessAt data i of
                     Some br \<Rightarrow> if br > level then br else 0
                   | None \<Rightarrow> 0)
      in data[i := toUint8Clamp color, i + 1 := toUint8Clamp color, i + 2 := toUint8Clamp color])"

definition grayscale_processor :: "real \<Rightarrow> byte list \<Rightarrow> byte list" where
  "grayscale_processor level data =
     fold (grayscalePixel level) (indicesFrom 0 4 (length data)) data"

section \<open>CRT modulation\<close>











section \<open>Block-quantisation effects\<close>

text \<open>
  What an effect draws is the list of canvas commands it issues, in order. A fill style
  is either the string \<^verbatim>\<open>rgb(r, g, b)\<close> built by Pixelate or a colour string
  (of the caller, or a colour name of the source).
  \<^item> \<open>FillRect style x y w h\<close> is \<^verbatim>\<open>fillRect(x, y, w, h)\<close> under the fill style in
    force;
  \<^item> \<open>FillCircle style cx cy radius\<close> is
    \<^verbatim>\<open>beginPath(); arc(cx, cy, radius, 0, 2 * Math.PI); fill()\<close>;
  \<^item> \<open>FillText style bold size char x y\<close> is \<^verbatim>\<open>fillText(char, x, y)\<close> under the font
    \<^verbatim>\<open>`${bold ? 'bold' : 'normal'} ${size}px monospace`\<close>, centred, where \<open>char\<close> is
    \<open>None\<close> for \<^verbatim>\<open>undefined\<close>;
  \<^item> \<open>SetComposite op\<close> is the assignment to \<^verbatim>\<open>globalCompositeOperation\<close>.
  How the canvas rasterises a command is outside the model.
\<close>

datatype fillStyle = Rgb int int int | ColorString string

datatype drawCommand =
    ClearRect real real real real
  | FillRect fillStyle real real real real
  | FillCircle fillStyle real real real
  | FillText fillStyle bool nat "nat option" real real
  | SetComposite string

subsection \<open>The block loops\<close>

text \<open>
  Every block effect but ASCII art has these two loops over the block at \<open>(x, y)\<close>, with
  \<^verbatim>\<open>pixelSize\<close> or \<^verbatim>\<open>gridSize\<close> for the size. Pixelate and Halftone (colours)
  accumulate the three colour channels:
  \<^verbatim>\<open>
  let totalR = 0; let totalG = 0; let totalB = 0; let count = 0;
  for (let blockY = y; blockY < y + pixelSize; blockY++) {
    for (let blockX = x; blockX < x + pixelSize; blockX++) {
      if (blockX < width && blockY < height) {
        const i = (blockY * width + blockX) * 4;
        totalR += data[i]; totalG += data[i + 1]; totalB += data[i + 2];
        count++;
      }
    }
  }
  \<close>
  The totals are sums of bytes and the count is a counter: natural numbers. Sizes and
  coordinates are whole numbers (the size sliders step by 1 or 2).
\<close>

definition colorAccumulate ::
  "byte list \<Rightarrow> nat \<Rightarrow> nat \<Rightarrow> nat \<Rightarrow> nat \<Rightarrow> nat \<times> nat \<times> nat \<times> nat \<Rightarrow> nat \<times> nat \<times> nat \<times> nat" where
  "colorAccumulate data width height blockY blockX acc =
     (case acc of (totalR, totalG, totalB, count) \<Rightarrow>
        if blockX < width \<and> blockY < height
        then (let i = (blockY * width + blockX) * 4
              in (totalR + unat (data ! i), totalG + unat (data ! (i + 1)),
                  totalB + unat (data ! (i + 2)), count + 1))
        else (totalR, totalG, totalB, count))"

definition colorBlock ::
  "byte list \<Rightarrow> nat \<Rightarrow> nat \<Rightarrow> nat \<Rightarrow> nat \<Rightarrow> nat \<Rightarrow> nat \<times> nat \<times> nat \<times> nat" where
  "colorBlock data width height pixelSize x y =
     fold (\<lambda>blockY. fold (colorAccumulate data width height blockY) [x..<x + pixelSize])
       [y..<y + pixelSize] (0, 0, 0, 0)"

text \<open>
  Duotone pixelate and Halftone (squares, circles, lines) accumulate the luminance:
  \<^verbatim>\<open>
  let totalBrightness = 0; let count = 0;
  for (let blockY = y; blockY < y + gridSize; blockY++) {
    for (let blockX = x; blockX < x + gridSize; blockX++) {
      if (blockX < width && blockY < height) {
        const i = (blockY * width + blockX) * 4;
        const brightness = 0.2126 * data[i] + 0.7152 * data[i + 1] + 0.0722 * data[i + 2];
        totalBrightness += brightness;
        count++;
      }
    }
  }
  \<close>
\<close>

definition brightnessAccumulate ::
  "byte list \<Rightarrow> nat \<Rightarrow> nat \<Rightarrow> nat \<Rightarrow> nat \<Rightarrow> real \<times> nat \<Rightarrow> real \<times> nat" where
  "brightnessAccumulate data width height blockY blockX acc =
     (case acc of (totalBrightness, count) \<Rightarrow>
        if blockX < width \<and> blockY < height
        then (let i = (blockY * width + blockX) * 4
              in (totalBrightness
                    + brightness (byteVal (data ! i)) (byteVal (data ! (i + 1))) (byteVal (data ! (i + 2))),
                  count + 1))
        else (totalBrightness, count))"

definition brightnessBlock :: "byte list \<Rightarrow> nat \<Rightarrow> nat \<Rightarrow> nat \<Rightarrow> nat \<Rightarrow> nat \<Rightarrow> real \<times> nat" where
  "brightnessBlock data width height gridSize x y =
     fold (\<lambda>blockY. fold (brightnessAccumulate data width height blockY) [x..<x + gridSize])
       [y..<y + gridSize] (0, 0)"

text \<open>
  ASCII art runs its block loops over offsets:
  \<^verbatim>\<open>
  for (let j = 0; j < charSize; j++) {
    for (let i = 0; i < charSize; i++) {
      if (x + i < width && y + j < height) {
        const idx = ((y + j) * width + (x + i)) * 4;
        const r = data[idx]; const g = data[idx + 1]; const b = data[idx + 2];
        const brightness = 0.2126 * r + 0.7152 * g + 0.0722 * b;
        totalBrightness += brightness;
        count++;
      }
    }
  }
  \<close>
\<close>

definition asciiAccumulate ::
  "byte list \<Rightarrow> nat \<Rightarrow> nat \<Rightarrow> nat \<Rightarrow> nat \<Rightarrow> nat \<Rightarrow> nat \<Rightarrow> real \<times> nat \<Rightarrow> real \<times> nat" where
  "asciiAccumulate data width height x y j i acc =
     (case acc of (totalBrightness, count) \<Rightarrow>
        if x + i < width \<and> y + j < height
        then (let idx = ((y + j) * width + (x + i)) * 4
              in (totalBrightness
                    + brightness (byteVal (data ! idx)) (byteVal (data ! (idx + 1)))
                        (byteVal (data ! (idx + 2))),
                  count + 1))
        else (totalBrightness, count))"

definition asciiBlock :: "byte list \<Rightarrow> nat \<Rightarrow> nat \<Rightarrow> nat \<Rightarrow> nat \<Rightarrow> nat \<Rightarrow> real \<times> nat" where
  "asciiBlock data width height charSize x y =
     fold (\<lambda>j. fold (asciiAccumulate data width height x y j) [0..<charSize])
       [0..<charSize] (0, 0)"

subsection \<open>Pixelate\<close>

text \<open>
  \<^verbatim>\<open>
  const pixelSize = Math.max(1, params.pixelSize as number);
  ...
  ctx.clearRect(0, 0, width, height);
  for (let y = 0; y < height; y += pixelSize) {
    for (let x = 0; x < width; x += pixelSize) {
      ... the block loops ...
      if (count > 0) {
        const avgR = Math.floor(totalR / count); ... avgG ... avgB ...
        ctx.fillStyle = `rgb(${avgR}, ${avgG}, ${avgB})`;
        ctx.fillRect(x, y, pixelSize, pixelSize);
      }
    }
  }
  \<close>
\<close>

text \<open>
  Here and below the body of \<^verbatim>\<open>if (count > 0)\<close> is a function of its own, which
  receives the quotients of total and count.
\<close>

definition pixelateFill :: "nat \<Rightarrow> nat \<Rightarrow> nat \<Rightarrow> real \<Rightarrow> real \<Rightarrow> real \<Rightarrow> drawCommand list" where
  "pixelateFill pixelSize x y quotR quotG quotB =
     (let avgR = \<lfloor>quotR\<rfloor>;
          avgG = \<lfloor>quotG\<rfloor>;
          avgB = \<lfloor>quotB\<rfloor>
      in [FillRect (Rgb avgR avgG avgB) (real x) (real y) (real pixelSize) (real pixelSize)])"

definition pixelateDraw :: "byte list \<Rightarrow> nat \<Rightarrow> nat \<Rightarrow> nat \<Rightarrow> nat \<Rightarrow> nat \<Rightarrow> drawCommand list" where
  "pixelateDraw data width height pixelSize x y =
     (case colorBlock data width height pixelSize x y of (totalR, totalG, totalB, count) \<Rightarrow>
        if count > 0
        then pixelateFill pixelSize x y (real totalR / real count) (real totalG / real count)
               (real totalB / real count)
        else [])"

definition pixelate_processor :: "byte list \<Rightarrow> nat \<Rightarrow> nat \<Rightarrow> nat \<Rightarrow> drawCommand list" where
  "pixelate_processor data width height pixelSizeParam =
     (let pixelSize = max 1 pixelSizeParam
      in ClearRect 0 0 (real width) (real height) #
         concat (map (\<lambda>y. concat (map (\<lambda>x. pixelateDraw data width height pixelSize x y)
                                      (indicesFrom 0 pixelSize width)))
                     (indicesFrom 0 pixelSize height)))"

subsection \<open>Duotone pixelate\<close>

text \<open>
  \<^verbatim>\<open>
  const pixelSize = Math.max(1, params.pixelSize as number);
  ...
  ctx.clearRect(0, 0, width, height);
  ... the same outer loops and the block loops ...
      if (count > 0) {
        const avgBrightness = totalBrightness / count;
        ctx.fillStyle = avgBrightness < threshold ? darkColor : lightColor;
        ctx.fillRect(x, y, pixelSize, pixelSize);
      }
  \<close>
\<close>

definition duotoneFill :: "nat \<Rightarrow> real \<Rightarrow> string \<Rightarrow> string \<Rightarrow> nat \<Rightarrow> nat \<Rightarrow> real \<Rightarrow> drawCommand list" where
  "duotoneFill pixelSize threshold darkColor lightColor x y avgBrightness =
     [FillRect (ColorString (if avgBrightness < threshold then darkColor else lightColor))
        (real x) (real y) (real pixelSize) (real pixelSize)]"

definition duotoneDraw ::
  "byte list \<Rightarrow> nat \<Rightarrow> nat \<Rightarrow> nat \<Rightarrow> real \<Rightarrow> string \<Rightarrow> string \<Rightarrow> nat \<Rightarrow> nat \<Rightarrow> drawCommand list" where
  "duotoneDraw data width height pixelSize threshold darkColor lightColor x y =
     (case brightnessBlock data width height pixelSize x y of (totalBrightness, count) \<Rightarrow>
        if count > 0
        then duotoneFill pixelSize threshold darkColor lightColor x y (totalBrightness / real count)
        else [])"

definition duotone_pixelate_processor ::
  "byte list \<Rightarrow> nat \<Rightarrow> nat \<Rightarrow> nat \<Rightarrow> real \<Rightarrow> string \<Rightarrow> string \<Rightarrow> drawCommand list" where
  "duotone_pixelate_processor data width height pixelSizeParam threshold darkColor lightColor =
     (let pixelSize = max 1 pixelSizeParam
      in ClearRect 0 0 (real width) (real height) #
         concat (map (\<lambda>y. concat (map (\<lambda>x. duotoneDraw data width height pixelSize threshold
                                               darkColor lightColor x y)
                                      (indicesFrom 0 pixelSize width)))
                     (indicesFrom 0 pixelSize height)))"

subsection \<open>Halftone (squares)\<close>

text \<open>
  \<^verbatim>\<open>
  const gridSize = Math.max(1, params.gridSize as number);
  ...
  ctx.fillStyle = bgColor; ctx.fillRect(0, 0, width, height);
  ctx.fillStyle = squareColor;
  ... the outer loops with gridSize and the block loops ...
      if (count > 0) {
        const avgBrightness = totalBrightness / count;
        let size = (avgBrightness / 255) * gridSize;
        if (invert) { size = gridSize - size; }
        const centeredX = x + (gridSize - size) / 2;
        const centeredY = y + (gridSize - size) / 2;
        ctx.fillRect(centeredX, centeredY, size, size);
      }
  \<close>
\<close>

definition halftoneSquare :: "nat \<Rightarrow> bool \<Rightarrow> string \<Rightarrow> nat \<Rightarrow> nat \<Rightarrow> real \<Rightarrow> drawCommand list" where
  "halftoneSquare gridSize invert squareColor x y avgBrightness =
     (let size0 = (avgBrightness / 255) * real gridSize;
          size = (if invert then real gridSize - size0 else size0);
          centeredX = real x + (real gridSize - size) / 2;
          centeredY = real y + (real gridSize - size) / 2
      in [FillRect (ColorString squareColor) centeredX centeredY size size])"

definition halftoneSquaresDraw ::
  "byte list \<Rightarrow> nat \<Rightarrow> nat \<Rightarrow> nat \<Rightarrow> bool \<Rightarrow> string \<Rightarrow> nat \<Rightarrow> nat \<Rightarrow> drawCommand list" where
  "halftoneSquaresDraw data width height gridSize invert squareColor x y =
     (case brightnessBlock data width height gridSize x y of (totalBrightness, count) \<Rightarrow>
        if count > 0
        then halftoneSquare gridSize invert squareColor x y (totalBrightness / real count)
        else [])"

definition halftone_squares_processor ::
  "byte list \<Rightarrow> nat \<Rightarrow> nat \<Rightarrow> nat \<Rightarrow> bool \<Rightarrow> string \<Rightarrow> string \<Rightarrow> drawCommand list" where
  "halftone_squares_processor data width height gridSizeParam invert squareColor bgColor =
     (let gridSize = max 1 gridSizeParam
      in FillRect (ColorString bgColor) 0 0 (real width) (real height) #
         concat (map (\<lambda>y. concat (map (\<lambda>x. halftoneSquaresDraw data width height gridSize invert
                                               squareColor x y)
                                      (indicesFrom 0 gridSize width)))
                     (indicesFrom 0 gridSize height)))"

subsection \<open>Halftone (circles)\<close>

text \<open>
  \<^verbatim>\<open>
      if (count > 0) {
        const avgBrightness = totalBrightness / count;
        let radius = (avgBrightness / 255) * (gridSize / 2);
        if (invert) { radius = (gridSize / 2) - radius; }
        const centerX = x + gridSize / 2;
        const centerY = y + gridSize / 2;
        ctx.beginPath(); ctx.arc(centerX, centerY, radius, 0, 2 * Math.PI); ctx.fill();
      }
  \<close>
\<close>

definition halftoneCircle :: "nat \<Rightarrow> bool \<Rightarrow> string \<Rightarrow> nat \<Rightarrow> nat \<Rightarrow> real \<Rightarrow> drawCommand list" where
  "halftoneCircle gridSize invert dotColor x y avgBrightness =
     (let radius0 = (avgBrightness / 255) * (real gridSize / 2);
          radius = (if invert then (real gridSize / 2) - radius0 else radius0);
          centerX = real x + real gridSize / 2;
          centerY = real y + real gridSize / 2
      in [FillCircle (ColorString dotColor) centerX centerY radius])"

definition halftoneCirclesDraw ::
  "byte list \<Rightarrow> nat \<Rightarrow> nat \<Rightarrow> nat \<Rightarrow> bool \<Rightarrow> string \<Rightarrow> nat \<Rightarrow> nat \<Rightarrow> drawCommand list" where
  "halftoneCirclesDraw data width height gridSize invert dotColor x y =
     (case brightnessBlock data width height gridSize x y of (totalBrightness, count) \<Rightarrow>
        if count > 0
        then halftoneCircle gridSize invert dotColor x y (totalBrightness / real count)
        else [])"

definition halftone_circles_processor ::
  "byte list \<Rightarrow> nat \<Rightarrow> nat \<Rightarrow> nat \<Rightarrow> bool \<Rightarrow> string \<Rightarrow> string \<Rightarrow> drawCommand list" where
  "halftone_circles_processor data width height gridSizeParam invert dotColor bgColor =
     (let gridSize = max 1 gridSizeParam
      in FillRect (ColorString bgColor) 0 0 (real width) (real height) #
         concat (map (\<lambda>y. concat (map (\<lambda>x. halftoneCirclesDraw data width height gridSize invert
                                               dotColor x y)
                                      (indicesFrom 0 gridSize width)))
                     (indicesFrom 0 gridSize height)))"

subsection \<open>Halftone (lines)\<close>

text \<open>
  \<^verbatim>\<open>
      if (count > 0) {
        const avgBrightness = totalBrightness / count;
        let thickness = (avgBrightness / 255) * gridSize;
        if (invert) thickness = gridSize - thickness;
        if (orientation === 'vertical') {
          const centeredX = x + (gridSize - thickness) / 2;
          ctx.fillRect(centeredX, y, thickness, gridSize);
        } else {
          const centeredY = y + (gridSize - thickness) / 2;
          ctx.fillRect(x, centeredY, gridSize, thickness);
        }
      }
  \<close>
\<close>

definition halftoneLine :: "nat \<Rightarrow> bool \<Rightarrow> string \<Rightarrow> string \<Rightarrow> nat \<Rightarrow> nat \<Rightarrow> real \<Rightarrow> drawCommand list" where
  "halftoneLine gridSize invert lineColor orientation x y avgBrightness =
     (let thickness0 = (avgBrightness / 255) * real gridSize;
          thickness = (if invert then real gridSize - thickness0 else thickness0)
      in if orientation = ''vertical''
         then (let centeredX = real x + (real gridSize - thickness) / 2
               in [FillRect (ColorString lineColor) centeredX (real y) thickness (real gridSize)])
         else (let centeredY = real y + (real gridSize - thickness) / 2
               in [FillRect (ColorString lineColor) (real x) centeredY (real gridSize) thickness]))"

definition halftoneLinesDraw ::
  "byte list \<Rightarrow> nat \<Rightarrow> nat \<Rightarrow> nat \<Rightarrow> bool \<Rightarrow> string \<Rightarrow> string \<Rightarrow> nat \<Rightarrow> nat \<Rightarrow> drawCommand list" where
  "halftoneLinesDraw data width height gridSize invert lineColor orientation x y =
     (case brightnessBlock data width height gridSize x y of (totalBrightness, count) \<Rightarrow>
        if count > 0
        then halftoneLine gridSize invert lineColor orientation x y (totalBrightness / real count)
        else [])"

definition halftone_lines_processor ::
  "byte list \<Rightarrow> nat \<Rightarrow> nat \<Rightarrow> nat \<Rightarrow> string \<Rightarrow> bool \<Rightarrow> string \<Rightarrow> string \<Rightarrow> drawCommand list" where
  "halftone_lines_processor data width height gridSizeParam orientation invert lineColor bgColor =
     (let gridSize = max 1 gridSizeParam
      in FillRect (ColorString bgColor) 0 0 (real width) (real height) #
         concat (map (\<lambda>y. concat (map (\<lambda>x. halftoneLinesDraw data width height gridSize invert
                                               lineColor orientation x y)
                                      (indicesFrom 0 gridSize width)))
                     (indicesFrom 0 gridSize height)))"

subsection \<open>Halftone (colours)\<close>

text \<open>
  \<^verbatim>\<open>
  const gridSize = Math.max(2, params.gridSize as number);
  ...
  ctx.fillStyle = bgColor; ctx.fillRect(0, 0, width, height);
  ctx.globalCompositeOperation = 'darken';
  ... the outer loops with gridSize and the block loops ...
      if (count > 0) {
        const avgR = totalR / count; const avgG = totalG / count; const avgB = totalB / count;
        const [c, m, y_cmyk, k] = rgbToCmyk(avgR, avgG, avgB);
        const halfGrid = gridSize / 2; const quarterGrid = gridSize / 4;
        const maxRadius = quarterGrid;
        const centerX = x + halfGrid; const centerY = y + halfGrid;
        const cmy_k_factor = 1 - k;
        ctx.fillStyle = 'cyan';    ... arc(centerX - quarterGrid, centerY - quarterGrid, (c * cmy_k_factor) * maxRadius, ...
        ctx.fillStyle = 'magenta'; ... arc(centerX + quarterGrid, centerY - quarterGrid, (m * cmy_k_factor) * maxRadius, ...
        ctx.fillStyle = 'yellow';  ... arc(centerX - quarterGrid, centerY + quarterGrid, (y_cmyk * cmy_k_factor) * maxRadius, ...
        ctx.fillStyle = 'black';   ... arc(centerX + quarterGrid, centerY + quarterGrid, k * maxRadius, ...
      }
  ...
  ctx.globalCompositeOperation = 'source-over';
  \<close>
  \<open>rgbToCmyk\<close> reports a division by zero as a value; the processor passes such a value
  on, and \<open>sequenceDraws\<close> gathers the commands of the blocks in order.
\<close>

definition halftoneColorDots :: "nat \<Rightarrow> nat \<Rightarrow> nat \<Rightarrow> real \<times> real \<times> real \<times> real \<Rightarrow> drawCommand list" where
  "halftoneColorDots gridSize x y cmyk =
     (case cmyk of (c, m, y_cmyk, k) \<Rightarrow>
        let halfGrid = real gridSize / 2;
            quarterGrid = real gridSize / 4;
            maxRadius = quarterGrid;
            centerX = real x + halfGrid;
            centerY = real y + halfGrid;
            cmy_k_factor = 1 - k
        in [FillCircle (ColorString ''cyan'') (centerX - quarterGrid) (centerY - quarterGrid)
              ((c * cmy_k_factor) * maxRadius),
            FillCircle (ColorString ''magenta'') (centerX + quarterGrid) (centerY - quarterGrid)
              ((m * cmy_k_factor) * maxRadius),
            FillCircle (ColorString ''yellow'') (centerX - quarterGrid) (centerY + quarterGrid)
              ((y_cmyk * cmy_k_factor) * maxRadius),
            FillCircle (ColorString ''black'') (centerX + quarterGrid) (centerY + quarterGrid)
              (k * maxRadius)])"

definition halftoneColorDraw ::
  "byte list \<Rightarrow> nat \<Rightarrow> nat \<Rightarrow> nat \<Rightarrow> nat \<Rightarrow> nat \<Rightarrow> error + drawCommand list" where
  "halftoneColorDraw data width height gridSize x y =
     (case colorBlock data width height gridSize x y of (totalR, totalG, totalB, count) \<Rightarrow>
        if count > 0
        then (let avgR = real totalR / real count;
                  avgG = real totalG / real count;
                  avgB = real totalB / real count
              in case rgbToCmyk avgR avgG avgB of
                   Inl e \<Rightarrow> Inl e
                 | Inr cmyk \<Rightarrow> Inr (halftoneColorDots gridSize x y cmyk))
        else Inr [])"

fun sequenceDraws :: "(error + drawCommand list) list \<Rightarrow> error + drawCommand list" where
  "sequenceDraws [] = Inr []"
| "sequenceDraws (r # rs) =
     (case r of
        Inl e \<Rightarrow> Inl e
      | Inr cmds \<Rightarrow> (case sequenceDraws rs of Inl e \<Rightarrow> Inl e | Inr more \<Rightarrow> Inr (cmds @ more)))"

definition halftone_color_processor ::
  "byte list \<Rightarrow> nat \<Rightarrow> nat \<Rightarrow> nat \<Rightarrow> string \<Rightarrow> error + drawCommand list" where
  "halftone_color_processor data width height gridSizeParam bgColor =
     (let gridSize = max 2 gridSizeParam
      in case sequenceDraws
                (concat (map (\<lambda>y. map (\<lambda>x. halftoneColorDraw data width height gridSize x y)
                                     (indicesFrom 0 gridSize width))
                             (indicesFrom 0 gridSize height))) of
           Inl e \<Rightarrow> Inl e
         | Inr dots \<Rightarrow>
             Inr ([FillRect (ColorString bgColor) 0 0 (real width) (real height),
                   SetComposite ''darken'']
                  @ dots @ [SetComposite ''source-over'']))"

subsection \<open>ASCII art\<close>

text \<open>
  \<^verbatim>\<open>
  const charSize = Math.max(1, params.charSize as number);
  ...
  ctx.fillStyle = bgColor; ctx.fillRect(0, 0, width, height);
  ctx.fillStyle = textColor;
  ctx.font = `${boldFont ? 'bold' : 'normal'} ${charSize}px monospace`;
  ctx.textAlign = 'center'; ctx.textBaseline = 'middle';
  for (let y = 0; y < height; y += charSize) {
    for (let x = 0; x < width; x += charSize) {
      ... the block loops over offsets ...
      if (count > 0) {
        const avgBrightness = totalBrightness / count;
        const step = Math.floor(avgBrightness * brightnessSteps / 256);
        const charIndex = Math.min(step, chars.length - 1);
        const char = chars[charIndex];
        ctx.fillText(char, x + charSize / 2, y + charSize / 2);
      }
    }
  }
  \<close>
\<close>

definition asciiGlyph ::
  "nat \<Rightarrow> int \<Rightarrow> string \<Rightarrow> bool \<Rightarrow> nat list \<Rightarrow> nat \<Rightarrow> nat \<Rightarrow> real \<Rightarrow> drawCommand list" where
  "asciiGlyph charSize brightnessSteps textColor boldFont userChars x y avgBrightness =
     [FillText (ColorString textColor) boldFont charSize
        (asciiChar avgBrightness brightnessSteps userChars)
        (real x + real charSize / 2) (real y + real charSize / 2)]"

definition asciiDraw ::
  "byte list \<Rightarrow> nat \<Rightarrow> nat \<Rightarrow> nat \<Rightarrow> int \<Rightarrow> string \<Rightarrow> bool \<Rightarrow> nat list \<Rightarrow> nat \<Rightarrow> nat
     \<Rightarrow> drawCommand list" where
  "asciiDraw data width height charSize brightnessSteps textColor boldFont userChars x y =
     (case asciiBlock data width height charSize x y of (totalBrightness, count) \<Rightarrow>
        if count > 0
        then asciiGlyph charSize brightnessSteps textColor boldFont userChars x y
               (totalBrightness / real count)
        else [])"

definition ascii_art_processor ::
  "byte list \<Rightarrow> nat \<Rightarrow> nat \<Rightarrow> nat \<Rightarrow> int \<Rightarrow> string \<Rightarrow> string \<Rightarrow> bool \<Rightarrow> nat list
     \<Rightarrow> drawCommand list" where
  "ascii_art_processor data width height charSizeParam brightnessSteps textColor bgColor boldFont
     userChars =
     (let charSize = max 1 charSizeParam
      in FillRect (ColorString bgColor) 0 0 (real width) (real height) #
         concat (map (\<lambda>y. concat (map (\<lambda>x. asciiDraw data width height charSize brightnessSteps
                                               textColor boldFont userChars x y)
                                      (indicesFrom 0 charSize width)))
                     (indicesFrom 0 charSize height)))"

subsection \<open>The blocks and their averages\<close>

text \<open>
  The in-bounds part of the block of size \<open>pixelSize\<close> at \<open>(x, y)\<close>: the positions
  \<open>(blockX, blockY)\<close> of the block that lie inside the \<open>width\<close> by \<open>height\<close> buffer.
\<close>

definition clippedBlock :: "nat \<Rightarrow> nat \<Rightarrow> nat \<Rightarrow> nat \<Rightarrow> nat \<Rightarrow> (nat \<times> nat) set" where
  "clippedBlock width height pixelSize x y =
     {(blockX, blockY). x \<le> blockX \<and> blockX < x + pixelSize \<and> blockX < width
                      \<and> y \<le> blockY \<and> blockY < y + pixelSize \<and> blockY < height}"

text \<open>
  The average of a quantity over a region of pixel positions, and the quantities the
  effects average: a colour channel (0, 1, 2 for R, G, B) and the luminance of the pixel
  at a position. \<open>blockAverageColor\<close> and \<open>blockAverageBrightness\<close> are the averages
  over the clipped block at \<open>(x, y)\<close>.
\<close>

definition regionAverage :: "(nat \<times> nat) set \<Rightarrow> (nat \<Rightarrow> nat \<Rightarrow> real) \<Rightarrow> real" where
  "regionAverage region f = (\<Sum>(blockX, blockY) \<in> region. f blockX blockY) / real (card region)"

definition channelAt :: "byte list \<Rightarrow> nat \<Rightarrow> nat \<Rightarrow> nat \<Rightarrow> nat \<Rightarrow> real" where
  "channelAt data width channel blockX blockY = byteVal (data ! ((blockY * width + blockX) * 4 + channel))"

definition brightnessOfPixel :: "byte list \<Rightarrow> nat \<Rightarrow> nat \<Rightarrow> nat \<Rightarrow> real" where
  "brightnessOfPixel data width blockX blockY =
     brightness (channelAt data width 0 blockX blockY) (channelAt data width 1 blockX blockY)
       (channelAt data width 2 blockX blockY)"

definition blockAverageColor :: "byte list \<Rightarrow> nat \<Rightarrow> nat \<Rightarrow> nat \<Rightarrow> nat \<Rightarrow> nat \<Rightarrow> nat \<Rightarrow> real" where
  "blockAverageColor data width height pixelSize channel x y =
     regionAverage (clippedBlock width height pixelSize x y) (channelAt data width channel)"

definition blockAverageBrightness :: "byte list \<Rightarrow> nat \<Rightarrow> nat \<Rightarrow> nat \<Rightarrow> nat \<Rightarrow> nat \<Rightarrow> real" where
  "blockAverageBrightness data width height pixelSize x y =
     regionAverage (clippedBlock width height pixelSize x y) (brightnessOfPixel data width)"

text \<open>
  The blocks of a \<open>width\<close> by \<open>height\<close> buffer, by their origins, row by row: the
  coordinates of an origin are the multiples of the block size below \<open>width\<close> and below
  \<open>height\<close>. The last block of a row or column is partial when the size does not divide
  the dimension.
\<close>

definition blockStarts :: "nat \<Rightarrow> nat \<Rightarrow> nat list" where
  "blockStarts pixelSize bound = filter (\<lambda>i. pixelSize dvd i) [0..<bound]"

definition blockOrigins :: "nat \<Rightarrow> nat \<Rightarrow> nat \<Rightarrow> (nat \<times> nat) list" where
  "blockOrigins width height pixelSize =
     concat (map (\<lambda>y. map (\<lambda>x. (x, y)) (blockStarts pixelSize width)) (blockStarts pixelSize height))"

text \<open>What \<open>rgbToCmyk\<close> returns when no division by zero is reached.\<close>

definition cmykValues :: "real \<Rightarrow> real \<Rightarrow> real \<Rightarrow> real \<times> real \<times> real \<times> real" where
  "cmykValues r g b =
     (let c = 1 - r / 255; m = 1 - g / 255; y = 1 - b / 255; k = min (min c m) y
      in if k = 1 then (0, 0, 0, 1)
         else ((c - k) / (1 - k), (m - k) / (1 - k), (y - k) / (1 - k), k))"

section \<open>Error-diffusion dithering\<close>

subsection \<open>Palette dithering\<close>

text \<open>
  \<^verbatim>\<open>
  const d = imageData.data;
  const pixelData = new Float32Array(width * height * 3);
  for (let i = 0; i < width * height; i++) {
    pixelData[i * 3]     = d[i * 4];
    pixelData[i * 3 + 1] = d[i * 4 + 1];
    pixelData[i * 3 + 2] = d[i * 4 + 2];
  }
  \<close>
\<close>

definition initPixelData :: "byte list \<Rightarrow> nat \<Rightarrow> nat \<Rightarrow> real list" where
  "initPixelData d width height =
     fold (\<lambda>i pixelData.
             pixelData[i * 3 := byteVal (d ! (i * 4)),
                       i * 3 + 1 := byteVal (d ! (i * 4 + 1)),
                       i * 3 + 2 := byteVal (d ! (i * 4 + 2))])
       [0..<width * height] (replicate (width * height * 3) 0)"

text \<open>
  One neighbour update, three channels:
  \<^verbatim>\<open>
  pixelData[neighborIndex]     += errR * weight * diffusionFactor;
  pixelData[neighborIndex + 1] += errG * weight * diffusionFactor;
  pixelData[neighborIndex + 2] += errB * weight * diffusionFactor;
  \<close>
\<close>

definition addError :: "real list \<Rightarrow> nat \<Rightarrow> color \<Rightarrow> real \<Rightarrow> real \<Rightarrow> real list" where
  "addError pixelData neighborIndex err weight diffusionFactor =
     (case err of (errR, errG, errB) \<Rightarrow>
        let p1 = pixelData[neighborIndex := pixelData ! neighborIndex + errR * weight * diffusionFactor];
            p2 = p1[neighborIndex + 1 := p1 ! (neighborIndex + 1) + errG * weight * diffusionFactor]
        in p2[neighborIndex + 2 := p2 ! (neighborIndex + 2) + errB * weight * diffusionFactor])"

text \<open>
  The body of the two loops, at \<open>(x, y)\<close>: the quantisation of the pixel in
  \<open>ditherColorStep\<close>, the four guarded neighbour updates in \<open>diffuseColor\<close>. With an empty palette \<open>findClosestColor\<close>
  returns \<^verbatim>\<open>undefined\<close> and \<^verbatim>\<open>newColor[0]\<close> throws a \<^verbatim>\<open>TypeError\<close>.
  \<^verbatim>\<open>
  const i = (y * width + x) * 3;
  const oldR = pixelData[i]; const oldG = pixelData[i + 1]; const oldB = pixelData[i + 2];
  const newColor = findClosestColor([oldR, oldG, oldB], palette);
  const outIdx = (y * width + x) * 4;
  d[outIdx] = newColor[0]; d[outIdx + 1] = newColor[1]; d[outIdx + 2] = newColor[2];
  const errR = oldR - newColor[0]; ... errG ... errB ...
  const diffusionFactor = factor / 16.0;
  if (x + 1 < width)                   { neighborIndex = i + 3;               ... * 7 ... }
  if (y + 1 < height && x > 0)         { neighborIndex = i + (width * 3) - 3; ... * 3 ... }
  if (y + 1 < height)                  { neighborIndex = i + (width * 3);     ... * 5 ... }
  if (y + 1 < height && x + 1 < width) { neighborIndex = i + (width * 3) + 3; ... * 1 ... }
  \<close>
\<close>

definition diffuseColor :: "nat \<Rightarrow> nat \<Rightarrow> real \<Rightarrow> nat \<Rightarrow> nat \<Rightarrow> color \<Rightarrow> real list \<Rightarrow> real list" where
  "diffuseColor width height factor y x err pixelData =
     (let i = (y * width + x) * 3;
          diffusionFactor = factor / 16;
          p1 = (if x + 1 < width
                then addError pixelData (i + 3) err 7 diffusionFactor else pixelData);
          p2 = (if y + 1 < height \<and> x > 0
                then addError p1 (i + width * 3 - 3) err 3 diffusionFactor else p1);
          p3 = (if y + 1 < height
                then addError p2 (i + width * 3) err 5 diffusionFactor else p2)
      in if y + 1 < height \<and> x + 1 < width
         then addError p3 (i + width * 3 + 3) err 1 diffusionFactor else p3)"

definition ditherColorStep ::
  "nat \<Rightarrow> nat \<Rightarrow> color list \<Rightarrow> real \<Rightarrow> nat \<Rightarrow> nat \<Rightarrow> byte list \<times> real list
     \<Rightarrow> error + (byte list \<times> real list)" where
  "ditherColorStep width height palette factor y x st =
     (case st of (d, pixelData) \<Rightarrow>
        let i = (y * width + x) * 3;
            oldR = pixelData ! i;
            oldG = pixelData ! (i + 1);
            oldB = pixelData ! (i + 2)
        in case findClosestColor (oldR, oldG, oldB) palette of
             None \<Rightarrow> Inl TypeError
           | Some (newR, newG, newB) \<Rightarrow>
               let outIdx = (y * width + x) * 4;
                   d' = d[outIdx := toUint8Clamp newR,
                          outIdx + 1 := toUint8Clamp newG,
                          outIdx + 2 := toUint8Clamp newB];
                   err = (oldR - newR, oldG - newG, oldB - newB)
               in Inr (d', diffuseColor width height factor y x err pixelData))"

definition ditherColorLoop ::
  "nat \<Rightarrow> nat \<Rightarrow> color list \<Rightarrow> real \<Rightarrow> byte list \<times> real list \<Rightarrow> error + (byte list \<times> real list)" where
  "ditherColorLoop width height palette factor st =
     fold (\<lambda>y. fold (\<lambda>x. throwing (ditherColorStep width height palette factor y x)) [0..<width])
       [0..<height] (Inr st)"

definition applyDitheringColor ::
  "byte list \<Rightarrow> nat \<Rightarrow> nat \<Rightarrow> color list \<Rightarrow> real \<Rightarrow> error + byte list" where
  "applyDitheringColor d width height palette factor =
     (case ditherColorLoop width height palette factor (d, initPixelData d width height) of
        Inl e \<Rightarrow> Inl e
      | Inr (d', pixelData) \<Rightarrow> Inr d')"

text \<open>The processor of the built-in effect passes \<open>JUSTICE_PALETTE\<close>.\<close>

definition dither_palette_processor :: "byte list \<Rightarrow> nat \<Rightarrow> nat \<Rightarrow> real \<Rightarrow> error + byte list" where
  "dither_palette_processor d width height factor =
     applyDitheringColor d width height JUSTICE_PALETTE factor"

subsection \<open>Two-colour dithering\<close>

text \<open>
  \<^verbatim>\<open>
  const grayscale = new Float32Array(width * height);
  for (let i = 0; i < d.length; i += 4) {
    const index = i / 4;
    const brightness = 0.2126 * d[i] + 0.7152 * d[i+1] + 0.0722 * d[i+2];
    grayscale[index] = brightness;
  }
  \<close>
  The length of \<^verbatim>\<open>d\<close> is a multiple of 4, so the three reads are inside the buffer.
\<close>

definition initGrayscale :: "byte list \<Rightarrow> nat \<Rightarrow> nat \<Rightarrow> real list" where
  "initGrayscale d width height =
     fold (\<lambda>i grayscale.
             grayscale[i div 4 :=
               brightness (byteVal (d ! i)) (byteVal (d ! (i + 1))) (byteVal (d ! (i + 2)))])
       (indicesFrom 0 4 (length d)) (replicate (width * height) 0)"

text \<open>
  \<^verbatim>\<open>
  const i = y * width + x;
  const oldPixel = grayscale[i];
  const useLightColor = oldPixel > 127.5;
  const newPixelValue = useLightColor ? 255 : 0;
  const outIdx = i * 4;
  d[outIdx] = useLightColor ? lightR : darkR; ... [outIdx + 1] ... [outIdx + 2] ...
  const quantError = oldPixel - newPixelValue;
  const diffusionError = quantError * factor / 16.0;
  if (x + 1 < width) { grayscale[i + 1] += diffusionError * 7; }
  if (y + 1 < height) {
    if (x > 0) { grayscale[i + width - 1] += diffusionError * 3; }
    grayscale[i + width] += diffusionError * 5;
    if (x + 1 < width) { grayscale[i + width + 1] += diffusionError * 1; }
  }
  \<close>
\<close>

definition diffuseBW :: "nat \<Rightarrow> nat \<Rightarrow> nat \<Rightarrow> nat \<Rightarrow> real \<Rightarrow> real list \<Rightarrow> real list" where
  "diffuseBW width height y x diffusionError grayscale =
     (let i = y * width + x;
          g1 = (if x + 1 < width
                then grayscale[i + 1 := grayscale ! (i + 1) + diffusionError * 7] else grayscale)
      in if y + 1 < height
         then (let g2 = (if x > 0
                         then g1[i + width - 1 := g1 ! (i + width - 1) + diffusionError * 3]
                         else g1);
                   g3 = g2[i + width := g2 ! (i + width) + diffusionError * 5]
               in if x + 1 < width
                  then g3[i + width + 1 := g3 ! (i + width + 1) + diffusionError * 1]
                  else g3)
         else g1)"

definition ditherBWStep ::
  "nat \<Rightarrow> nat \<Rightarrow> real \<Rightarrow> color \<Rightarrow> color \<Rightarrow> nat \<Rightarrow> nat \<Rightarrow> byte list \<times> real list
     \<Rightarrow> byte list \<times> real list" where
  "ditherBWStep width height factor darkColor lightColor y x st =
     (case st of (d, grayscale) \<Rightarrow>
      case darkColor of (darkR, darkG, darkB) \<Rightarrow>
      case lightColor of (lightR, lightG, lightB) \<Rightarrow>
        let i = y * width + x;
            oldPixel = grayscale ! i;
            useLightColor = (oldPixel > 127.5);
            newPixelValue = (if useLightColor then 255 else 0);
            outIdx = i * 4;
            d' = d[outIdx := toUint8Clamp (if useLightColor then lightR else darkR),
                   outIdx + 1 := toUint8Clamp (if useLightColor then lightG else darkG),
                   outIdx + 2 := toUint8Clamp (if useLightColor then lightB else darkB)];
            quantError = oldPixel - newPixelValue;
            diffusionError = quantError * factor / 16
        in (d', diffuseBW width height y x diffusionError grayscale))"

definition applyDitheringBW ::
  "byte list \<Rightarrow> nat \<Rightarrow> nat \<Rightarrow> real \<Rightarrow> color \<Rightarrow> color \<Rightarrow> byte list" where
  "applyDitheringBW d width height factor darkColor lightColor =
     fst (fold (\<lambda>y. fold (ditherBWStep width height factor darkColor lightColor y) [0..<width])
            [0..<height] (d, initGrayscale d width height))"

text \<open>
  The Floyd-Steinberg weight, out of 16, with which the pixel at \<open>(x', y')\<close> receives the
  error of the pixel at \<open>(x, y)\<close>: 7 to the right, 3 below left, 5 below, 1 below right,
  nothing anywhere else. The channel \<open>c\<close> (0, 1, 2) of a colour.
\<close>

definition diffusionWeight :: "nat \<Rightarrow> nat \<Rightarrow> nat \<Rightarrow> nat \<Rightarrow> real" where
  "diffusionWeight x y x' y' =
     (if x' = x + 1 \<and> y' = y then 7
      else if x' + 1 = x \<and> y' = y + 1 then 3
      else if x' = x \<and> y' = y + 1 then 5
      else if x' = x + 1 \<and> y' = y + 1 then 1
      else 0)"

definition colorChannel :: "color \<Rightarrow> nat \<Rightarrow> real" where
  "colorChannel col c = (case col of (r, g, b) \<Rightarrow> if c = 0 then r else if c = 1 then g else b)"

text \<open>The colour of pixel \<open>p\<close> of a buffer, as numbers.\<close>

definition rgbAt :: "byte list \<Rightarrow> nat \<Rightarrow> color" where
  "rgbAt d p = (byteVal (d ! (p * 4)), byteVal (d ! (p * 4 + 1)), byteVal (d ! (p * 4 + 2)))"

section \<open>Properties of the colour utilities\<close>

lemma distance_nonneg: "0 \<le> distance c p"
  by (cases c; cases p) simp

lemma distance_zero_iff: "distance c p = 0 \<longleftrightarrow> c = p"
proof (cases c; cases p)
  fix r g b pr pg pb
  assume c: "c = (r, g, b)" and p: "p = (pr, pg, pb)"
  have "(r - pr)\<^sup>2 + (g - pg)\<^sup>2 + (b - pb)\<^sup>2 = 0 \<longleftrightarrow> r - pr = 0 \<and> g - pg = 0 \<and> b - pb = 0"
    by (simp add: sum_power2_eq_zero_iff add_nonneg_eq_0_iff)
  with c p show ?thesis by auto
qed

lemma closestLoop_first_minimal:
  "\<exists>i < length (a # ps).
      closestLoop color ps (Some a) (Some (distance color a)) = Some ((a # ps) ! i)
    \<and> (\<forall>j < length (a # ps). distance color ((a # ps) ! i) \<le> distance color ((a # ps) ! j))
    \<and> (\<forall>j < i. distance color ((a # ps) ! i) < distance color ((a # ps) ! j))"
proof (induction ps arbitrary: a)
  case Nil
  then show ?case by simp
next
  case (Cons p ps)
  show ?case
  proof (cases "distance color p < distance color a")
    case True
    from Cons.IH [of p] obtain i where i: "i < length (p # ps)"
      and r: "closestLoop color ps (Some p) (Some (distance color p)) = Some ((p # ps) ! i)"
      and mn: "\<forall>j < length (p # ps). distance color ((p # ps) ! i) \<le> distance color ((p # ps) ! j)"
      and fst: "\<forall>j < i. distance color ((p # ps) ! i) < distance color ((p # ps) ! j)"
      by blast
    from mn have le_p: "distance color ((p # ps) ! i) \<le> distance color p"
      by (metis length_greater_0_conv list.distinct(1) nth_Cons_0)
    have "Suc i < length (a # p # ps)" using i by simp
    moreover have "closestLoop color (p # ps) (Some a) (Some (distance color a)) = Some ((a # p # ps) ! Suc i)"
      using True r by simp
    moreover have "\<forall>j < length (a # p # ps). distance color ((a # p # ps) ! Suc i) \<le> distance color ((a # p # ps) ! j)"
    proof (intro allI impI)
      fix j assume "j < length (a # p # ps)"
      then show "distance color ((a # p # ps) ! Suc i) \<le> distance color ((a # p # ps) ! j)"
        using mn le_p True by (cases j) auto
    qed
    moreover have "\<forall>j < Suc i. distance color ((a # p # ps) ! Suc i) < distance color ((a # p # ps) ! j)"
    proof (intro allI impI)
      fix j assume "j < Suc i"
      then show "distance color ((a # p # ps) ! Suc i) < distance color ((a # p # ps) ! j)"
        using fst le_p True by (cases j) auto
    qed
    ultimately show ?thesis by blast
  next
    case False
    from Cons.IH [of a] obtain i where i: "i < length (a # ps)"
      and r: "closestLoop color ps (Some a) (Some (distance color a)) = Some ((a # ps) ! i)"
      and mn: "\<forall>j < length (a # ps). distance color ((a # ps) ! i) \<le> distance color ((a # ps) ! j)"
      and fst: "\<forall>j < i. distance color ((a # ps) ! i) < distance color ((a # ps) ! j)"
      by blast
    from mn have le_a: "distance color ((a # ps) ! i) \<le> distance color a"
      by (metis length_greater_0_conv list.distinct(1) nth_Cons_0)
    define i' where "i' = (case i of 0 \<Rightarrow> 0 | Suc n \<Rightarrow> Suc (Suc n))"
    have same: "(a # p # ps) ! i' = (a # ps) ! i"
      by (cases i) (simp_all add: i'_def)
    have "i' < length (a # p # ps)" using i by (cases i) (simp_all add: i'_def)
    moreover have "closestLoop color (p # ps) (Some a) (Some (distance color a)) = Some ((a # p # ps) ! i')"
      using False r same by simp
    moreover have "\<forall>j < length (a # p # ps). distance color ((a # p # ps) ! i') \<le> distance color ((a # p # ps) ! j)"
    proof (intro allI impI)
      fix j assume j: "j < length (a # p # ps)"
      show "distance color ((a # p # ps) ! i') \<le> distance color ((a # p # ps) ! j)"
      proof (cases j)
        case 0
        then show ?thesis using le_a same by simp
      next
        case (Suc j')
        show ?thesis
        proof (cases j')
          case 0
          then show ?thesis using Suc le_a same False by simp
        next
          case (Suc j'')
          then have "Suc j'' < length (a # ps)" using j \<open>j = Suc j'\<close> by simp
          with mn have "distance color ((a # ps) ! i) \<le> distance color ((a # ps) ! Suc j'')" by blast
          then show ?thesis using Suc \<open>j = Suc j'\<close> same by simp
        qed
      qed
    qed
    moreover have "\<forall>j < i'. distance color ((a # p # ps) ! i') < distance color ((a # p # ps) ! j)"
    proof (intro allI impI)
      fix j assume j: "j < i'"
      then obtain n where n: "i = Suc n" "i' = Suc (Suc n)"
        by (cases i) (simp_all add: i'_def)
      from fst n have lt_a: "distance color ((a # ps) ! i) < distance color a" by auto
      show "distance color ((a # p # ps) ! i') < distance color ((a # p # ps) ! j)"
      proof (cases j)
        case 0
        then show ?thesis using lt_a same by simp
      next
        case (Suc j')
        show ?thesis
        proof (cases j')
          case 0
          then show ?thesis using Suc lt_a same False by simp
        next
          case (Suc j'')
          then have "Suc j'' < i" using j n \<open>j = Suc j'\<close> by simp
          with fst have "distance color ((a # ps) ! i) < distance color ((a # ps) ! Suc j'')" by blast
          then show ?thesis using Suc \<open>j = Suc j'\<close> same by simp
        qed
      qed
    qed
    ultimately show ?thesis by blast
  qed
qed


lemma findClosestColor_Cons:
  "\<exists>i < length (a # ps).
      findClosestColor color (a # ps) = Some ((a # ps) ! i)
    \<and> (\<forall>j < length (a # ps). distance color ((a # ps) ! i) \<le> distance color ((a # ps) ! j))
    \<and> (\<forall>j < i. distance color ((a # ps) ! i) < distance color ((a # ps) ! j))"
proof -
  have "findClosestColor color (a # ps) = closestLoop color ps (Some a) (Some (distance color a))"
    by (simp add: findClosestColor_def)
  then show ?thesis
    using closestLoop_first_minimal [of a ps color] by presburger
qed

text \<open>
  Claim C7. For every colour and every non-empty palette, \<open>findClosestColor\<close> returns a
  palette entry of minimal squared Euclidean distance to the colour; among the entries of
  minimal distance it returns the first in palette order (every earlier entry is strictly
  farther); and a colour that occurs in the palette is returned as itself.
\<close>

theorem findClosestColor_first_minimal:
  assumes "palette \<noteq> []"
  shows "\<exists>i < length palette.
           findClosestColor color palette = Some (palette ! i)
         \<and> (\<forall>j < length palette. distance color (palette ! i) \<le> distance color (palette ! j))
         \<and> (\<forall>j < i. distance color (palette ! i) < distance color (palette ! j))
         \<and> (color \<in> set palette \<longrightarrow> palette ! i = color)"
proof -
  from assms obtain a ps where pal: "palette = a # ps" by (cases palette) auto
  have "\<exists>i < length palette.
      findClosestColor color palette = Some (palette ! i)
    \<and> (\<forall>j < length palette. distance color (palette ! i) \<le> distance color (palette ! j))
    \<and> (\<forall>j < i. distance color (palette ! i) < distance color (palette ! j))"
    unfolding pal by (rule findClosestColor_Cons)
  then obtain i where i: "i < length palette"
    and r: "findClosestColor color palette = Some (palette ! i)"
    and mn: "\<forall>j < length palette. distance color (palette ! i) \<le> distance color (palette ! j)"
    and fst: "\<forall>j < i. distance color (palette ! i) < distance color (palette ! j)"
    by (elim exE conjE)
  have ex: "palette ! i = color" if "color \<in> set palette"
  proof -
    from that obtain j where j: "j < length palette" "palette ! j = color"
      by (auto simp: in_set_conv_nth)
    from mn [rule_format, OF j(1)] have "distance color (palette ! i) \<le> distance color (palette ! j)" .
    then have "distance color (palette ! i) \<le> 0"
      using distance_zero_iff [of color color] by (simp add: j(2))
    then have "distance color (palette ! i) = 0"
      using distance_nonneg [of color "palette ! i"] by linarith
    then show ?thesis by (simp add: distance_zero_iff)
  qed
  show ?thesis
  proof (intro exI [of _ i] conjI impI)
    show "i < length palette" by (rule i)
    show "findClosestColor color palette = Some (palette ! i)" by (rule r)
    show "\<forall>j < length palette. distance color (palette ! i) \<le> distance color (palette ! j)" by (rule mn)
    show "\<forall>j < i. distance color (palette ! i) < distance color (palette ! j)" by (rule fst)
    show "palette ! i = color" if "color \<in> set palette" using that by (rule ex)
  qed
qed

theorem findClosestColor_first_minimal_witness:
  "[(0, 0, 0), (2, 2, 2)] \<noteq> ([] :: color list) \<and>
   findClosestColor (1, 1, 1) [(0, 0, 0), (2, 2, 2)] = Some (0, 0, 0)"
  using findClosestColor_first_minimal [of "[(0, 0, 0), (2, 2, 2)]" "(1, 1, 1)"]
  by (simp add: findClosestColor_def)

text \<open>
  Claim C8. \<open>rgbToCmyk\<close> returns \<open>(0, 0, 0, 1)\<close> on pure black, and on every input the
  divisions by \<open>1 - k\<close> are reached only with \<open>k \<noteq> 1\<close>: the result is never the
  division-by-zero error, it is \<open>(0, 0, 0, 1)\<close> when \<open>k = 1\<close> and the three normalised
  quotients with \<open>k\<close> otherwise.
\<close>

theorem rgbToCmyk_no_division_by_zero:
  "rgbToCmyk 0 0 0 = Inr (0, 0, 0, 1) \<and>
   rgbToCmyk r g b \<noteq> Inl DivisionByZero \<and>
   rgbToCmyk r g b =
     (let c = 1 - r / 255; m = 1 - g / 255; y = 1 - b / 255; k = min (min c m) y
      in if k = 1 then Inr (0, 0, 0, 1)
         else Inr ((c - k) / (1 - k), (m - k) / (1 - k), (y - k) / (1 - k), k))"
  by (simp add: rgbToCmyk_def divide_checked_def Let_def)

subsection \<open>The ASCII symbol index\<close>

lemma asciiChars_nonempty: "asciiChars userChars \<noteq> []"
  by (simp add: asciiChars_def)

lemma asciiStep_nonneg: "0 \<le> avg \<Longrightarrow> 0 \<le> N \<Longrightarrow> 0 \<le> asciiStep avg N"
  by (simp add: asciiStep_def)

lemma asciiStep_upper:
  assumes "avg \<le> 255" and "1 \<le> N"
  shows "asciiStep avg N \<le> N - 1"
proof -
  have "avg * of_int N \<le> 255 * of_int N"
    using assms by (simp add: mult_right_mono)
  also have "\<dots> < 256 * of_int N" using assms by simp
  finally have "avg * of_int N / 256 < of_int N" by simp
  then have "\<lfloor>avg * of_int N / 256\<rfloor> < N" by (simp add: floor_less_iff)
  then show ?thesis by (simp add: asciiStep_def)
qed

text \<open>
  Claim C5. For a block of average brightness in \<open>[0, 255]\<close> and a step count
  \<open>N \<ge> 1\<close> (the parameter schema offers 2 to 15), the index of the rendered symbol is
  \<open>min (floor (avgBrightness * N / 256)) (length chars - 1)\<close>, where \<open>chars\<close> is the
  caller's symbol string when that is non-empty; the index is a valid position of
  \<open>chars\<close>, so a symbol is rendered; brightness 0 gives index 0 and brightness 255
  gives an index of at most \<open>N - 1\<close>.
\<close>

theorem asciiCharIndex_in_bounds:
  assumes "0 \<le> avgBrightness" and "avgBrightness \<le> 255" and "1 \<le> N"
  shows "asciiCharIndex avgBrightness N userChars =
           min \<lfloor>avgBrightness * of_int N / 256\<rfloor> (int (length (asciiChars userChars)) - 1)
       \<and> (userChars \<noteq> [] \<longrightarrow> asciiChars userChars = userChars)
       \<and> 0 \<le> asciiCharIndex avgBrightness N userChars
       \<and> asciiCharIndex avgBrightness N userChars < int (length (asciiChars userChars))
       \<and> asciiChar avgBrightness N userChars =
           Some (asciiChars userChars ! nat (asciiCharIndex avgBrightness N userChars))
       \<and> asciiCharIndex 0 N userChars = 0
       \<and> asciiCharIndex 255 N userChars \<le> N - 1"
proof -
  have len: "0 < int (length (asciiChars userChars))"
    using asciiChars_nonempty [of userChars] by simp
  have lo: "0 \<le> asciiCharIndex avgBrightness N userChars"
    using asciiStep_nonneg [of avgBrightness N] assms len by (simp add: asciiCharIndex_def)
  have hi: "asciiCharIndex avgBrightness N userChars < int (length (asciiChars userChars))"
    by (simp add: asciiCharIndex_def min_less_iff_disj)
  have zero: "asciiCharIndex 0 N userChars = 0"
    using len by (simp add: asciiCharIndex_def asciiStep_def)
  have top: "asciiCharIndex 255 N userChars \<le> N - 1"
    using asciiStep_upper [of 255 N] assms by (simp add: asciiCharIndex_def min_le_iff_disj)
  show ?thesis
    using lo hi zero top
    by (simp add: asciiCharIndex_def asciiStep_def asciiChar_def charAt_def asciiChars_def)
qed

theorem asciiCharIndex_in_bounds_witness:
  "(0 :: real) \<le> 255 \<and> (255 :: real) \<le> 255 \<and> (1 :: int) \<le> 7
   \<and> asciiCharIndex 255 7 [32, 46, 58, 45, 61, 43, 42, 35, 37, 64] = 6
   \<and> asciiChar 255 7 [32, 46, 58, 45, 61, 43, 42, 35, 37, 64] = Some 42
   \<and> asciiCharIndex 255 7 [9617, 9618, 9619, 9608] = 3"
  using asciiCharIndex_in_bounds [of 255 7 "[32, 46, 58, 45, 61, 43, 42, 35, 37, 64]"]
  by (simp add: asciiCharIndex_def asciiStep_def asciiChar_def charAt_def asciiChars_def)

section \<open>Properties of the point-threshold effects\<close>

lemma toUint8Clamp_of_nat:
  assumes "n \<le> 255"
  shows "toUint8Clamp (real n) = of_nat n"
proof -
  consider "n = 0" | "n = 255" | "0 < n" "n < 255" using assms by linarith
  then show ?thesis
  proof cases
    case 1
    then show ?thesis by (simp add: toUint8Clamp_def)
  next
    case 2
    then show ?thesis by (simp add: toUint8Clamp_def)
  next
    case 3
    have fl: "\<lfloor>real n\<rfloor> = int n" by simp
    from 3 have "\<not> real n \<le> 0" "\<not> 255 \<le> real n" by simp_all
    then show ?thesis
      unfolding toUint8Clamp_def Let_def fl by simp
  qed
qed

lemma toUint8Clamp_byteVal [simp]: "toUint8Clamp (byteVal b) = b"
proof -
  have "unat b < 2 ^ 8" using unsigned_less [of b, where ?'a = nat] by simp
  then have "unat b \<le> 255" by simp
  then have "toUint8Clamp (real (unat b)) = of_nat (unat b)" by (rule toUint8Clamp_of_nat)
  then show ?thesis by simp
qed

lemma toUint8Clamp_0 [simp]: "toUint8Clamp 0 = 0"
  by (simp add: toUint8Clamp_def)

lemma toUint8Clamp_255 [simp]: "toUint8Clamp 255 = 255"
  by (simp add: toUint8Clamp_def)

lemma length_pixelBytes [simp]: "length (pixelBytes ps) = 4 * length ps"
  by (induction ps rule: pixelBytes.induct) simp_all

lemma fold_pixels:
  assumes body: "\<And>xs r g b a rest.
     body (length xs) (xs @ r # g # b # a # rest) = xs @ pixelBytes [h (r, g, b, a)] @ rest"
  shows "fold body (indicesFrom (length xs) 4 (length xs + 4 * length ps)) (xs @ pixelBytes ps)
         = xs @ pixelBytes (map h ps)"
proof (induction ps arbitrary: xs)
  case Nil
  then show ?case by (simp add: indicesFrom.simps)
next
  case (Cons p ps)
  obtain r g b a where p: "p = (r, g, b, a)" by (cases p) auto
  obtain r' g' b' a' where h: "h (r, g, b, a) = (r', g', b', a')" by (cases "h (r, g, b, a)") auto
  have len: "length (xs @ [r', g', b', a']) = length xs + 4" by simp
  have unfold: "indicesFrom (length xs) 4 (length xs + 4 * length (p # ps))
      = length xs # indicesFrom (length (xs @ [r', g', b', a'])) 4 (length (xs @ [r', g', b', a']) + 4 * length ps)"
    unfolding len by (subst indicesFrom.simps) (simp add: add.assoc)
  have step: "body (length xs) (xs @ pixelBytes (p # ps)) = (xs @ [r', g', b', a']) @ pixelBytes ps"
    using body [of xs r g b a "pixelBytes ps"] by (simp add: p h)
  show ?case
    unfolding unfold
    using Cons.IH [of "xs @ [r', g', b', a']"] step
    by (simp add: p h)
qed

lemma brightnessAt_pixel:
  "brightnessAt (xs @ r # g # b # a # rest) (length xs) = Some (brightness (byteVal r) (byteVal g) (byteVal b))"
  by (simp add: brightnessAt_def nth_append)

lemma update_pixel:
  "(xs @ r # g # b # a # rest)[length xs := r', length xs + 1 := g', length xs + 2 := b']
   = xs @ r' # g' # b' # a # rest"
  by (simp add: list_update_append)

lemma update_pixel_if:
  "(xs @ r # g # b # a # rest)[length xs := c, length xs + 1 := c, length xs + 2 := c]
   = xs @ c # c # c # a # rest"
  by (rule update_pixel)

lemma threshold_pixels:
  "threshold_processor level (pixelBytes ps)
   = pixelBytes (map (\<lambda>(r, g, b, a).
       (let c = (if brightness (byteVal r) (byteVal g) (byteVal b) > level then 255 else 0)
        in (c, c, c, a))) ps)"
proof -
  let ?h = "\<lambda>(r, g, b, a).
       (let c = (if brightness (byteVal r) (byteVal g) (byteVal b) > level then 255 else 0)
        in (c, c, c, a))"
  have "fold (thresholdPixel level)
          (indicesFrom (length ([] :: byte list)) 4 (length ([] :: byte list) + 4 * length ps))
          ([] @ pixelBytes ps)
        = [] @ pixelBytes (map ?h ps)"
  proof (rule fold_pixels)
    fix xs r g b a rest
    show "thresholdPixel level (length xs) (xs @ r # g # b # a # rest)
          = xs @ pixelBytes [?h (r, g, b, a)] @ rest"
      unfolding thresholdPixel_def brightnessAt_pixel Let_def update_pixel_if
      by simp
  qed
  then show ?thesis by (simp add: threshold_processor_def)
qed

lemma brightness_mid_gray: "brightness 128 128 128 = 128"
  by (simp add: brightness_def)

text \<open>
  Claim C3. Threshold with level 128 on a 4 by 4 buffer whose pixels are all
  \<open>(128, 128, 128)\<close>, with any alpha values: every pixel becomes \<open>(0, 0, 0)\<close>, since the
  luminance 128 is not greater than the level, and keeps its alpha.
\<close>

theorem threshold_mid_gray:
  assumes "length alphas = 4 * 4"
  shows "threshold_processor 128 (pixelBytes (map (\<lambda>a. (128, 128, 128, a)) alphas))
         = pixelBytes (map (\<lambda>a. (0, 0, 0, a)) alphas)"
  by (simp add: threshold_pixels brightness_mid_gray o_def)

theorem threshold_mid_gray_witness:
  "length [255, 254, 253, 252, 200, 150, 100, 50, 9, 8, 7, 6, 3, 2, 1, 0 :: byte] = 4 * 4 \<and>
   threshold_processor 128
     (pixelBytes (map (\<lambda>a. (128, 128, 128, a))
        [255, 254, 253, 252, 200, 150, 100, 50, 9, 8, 7, 6, 3, 2, 1, 0]))
   = pixelBytes (map (\<lambda>a. (0, 0, 0, a))
        [255, 254, 253, 252, 200, 150, 100, 50, 9, 8, 7, 6, 3, 2, 1, 0])"
  using threshold_mid_gray [of "[255, 254, 253, 252, 200, 150, 100, 50, 9, 8, 7, 6, 3, 2, 1, 0]"]
  by simp

text \<open>
  Claim C10. Grayscale rewrites every pixel \<open>(r, g, b, a)\<close> of the buffer to
  \<open>(c, c, c, a)\<close>: the three colour channels receive one value, the stored luminance when
  the luminance exceeds the level and 0 otherwise, and the alpha channel is the one the
  pixel had.
\<close>

theorem grayscale_preserves_alpha:
  "grayscale_processor level (pixelBytes ps)
   = pixelBytes (map (\<lambda>(r, g, b, a).
       (let br = brightness (byteVal r) (byteVal g) (byteVal b);
            c = toUint8Clamp (if br > level then br else 0)
        in (c, c, c, a))) ps)"
proof -
  let ?h = "\<lambda>(r, g, b, a).
       (let br = brightness (byteVal r) (byteVal g) (byteVal b);
            c = toUint8Clamp (if br > level then br else 0)
        in (c, c, c, a))"
  have "fold (grayscalePixel level)
          (indicesFrom (length ([] :: byte list)) 4 (length ([] :: byte list) + 4 * length ps))
          ([] @ pixelBytes ps)
        = [] @ pixelBytes (map ?h ps)"
  proof (rule fold_pixels)
    fix xs r g b a rest
    show "grayscalePixel level (length xs) (xs @ r # g # b # a # rest)
          = xs @ pixelBytes [?h (r, g, b, a)] @ rest"
      unfolding grayscalePixel_def brightnessAt_pixel Let_def update_pixel_if
      by simp
  qed
  then show ?thesis by (simp add: grayscale_processor_def)
qed

section \<open>Properties of the CRT modulation\<close>

lemma fold_raster:
  "fold (\<lambda>y. fold (f y) [0..<w]) [0..<h] s = fold (\<lambda>p. f (p div w) (p mod w)) [0..<h * w] s"
proof (induction h)
  case 0
  then show ?case by simp
next
  case (Suc h)
  have e1: "Suc h * w = h * w + w" by simp
  have e2: "[0..<h * w + w] = [0..<h * w] @ [h * w..<h * w + w]"
    by (rule upt_add_eq_append) simp
  have e3: "map (\<lambda>x. x + h * w) [0..<w] = [h * w..<w + h * w]"
    by (rule map_add_upt)
  have e4: "w + h * w = h * w + w" by simp
  have split: "[0..<Suc h * w] = [0..<h * w] @ map (\<lambda>x. x + h * w) [0..<w]"
    by (simp only: e1 e2 e3 e4)
  have row: "fold (\<lambda>p. f (p div w) (p mod w)) (map (\<lambda>x. x + h * w) [0..<w]) t = fold (f h) [0..<w] t" for t
  proof -
    have "fold ((\<lambda>p. f (p div w) (p mod w)) \<circ> (\<lambda>x. x + h * w)) [0..<w] t = fold (f h) [0..<w] t"
    proof (rule fold_cong)
      fix x assume "x \<in> set [0..<w]"
      then have "x < w" by simp
      then show "((\<lambda>p. f (p div w) (p mod w)) \<circ> (\<lambda>x. x + h * w)) x = f h x"
        by simp
    qed simp_all
    then show ?thesis by (simp only: fold_map)
  qed
  have "fold (\<lambda>y. fold (f y) [0..<w]) [0..<Suc h] s = fold (f h) [0..<w] (fold (\<lambda>y. fold (f y) [0..<w]) [0..<h] s)"
    by simp
  also have "\<dots> = fold (f h) [0..<w] (fold (\<lambda>p. f (p div w) (p mod w)) [0..<h * w] s)"
    by (simp only: Suc.IH)
  also have "\<dots> = fold (\<lambda>p. f (p div w) (p mod w)) [0..<Suc h * w] s"
    by (simp only: split fold_append o_apply row)
  finally show ?case .
qed

lemma fold_upt_invariant:
  assumes "I 0 s" and "\<And>p t. p < n \<Longrightarrow> I p t \<Longrightarrow> I (Suc p) (f p t)"
  shows "I n (fold f [0..<n] s)"
  using assms
proof (induction n)
  case 0
  then show ?case by simp
next
  case (Suc n)
  have "I n (fold f [0..<n] s)"
    by (rule Suc.IH) (use Suc.prems in auto)
  then show ?case using Suc.prems(2) [of n] by simp
qed













section \<open>Properties of the block-quantisation effects\<close>

lemma clippedBlock_rect:
  "clippedBlock width height pixelSize x y
   = {x..<min (x + pixelSize) width} \<times> {y..<min (y + pixelSize) height}"
  by (auto simp: clippedBlock_def)

lemma finite_clippedBlock: "finite (clippedBlock width height pixelSize x y)"
  by (simp add: clippedBlock_rect)

lemma card_clippedBlock:
  "card (clippedBlock width height pixelSize x y)
   = (min (x + pixelSize) width - x) * (min (y + pixelSize) height - y)"
  by (simp add: clippedBlock_rect)

lemma sum_clippedBlock:
  fixes f :: "nat \<Rightarrow> nat \<Rightarrow> 'a :: comm_monoid_add"
  shows "(\<Sum>(blockX, blockY) \<in> clippedBlock width height pixelSize x y. f blockX blockY)
   = (\<Sum>blockY = y..<min (y + pixelSize) height. \<Sum>blockX = x..<min (x + pixelSize) width. f blockX blockY)"
proof -
  have "(\<Sum>blockY = y..<min (y + pixelSize) height. \<Sum>blockX = x..<min (x + pixelSize) width. f blockX blockY)
      = (\<Sum>blockX = x..<min (x + pixelSize) width. \<Sum>blockY = y..<min (y + pixelSize) height. f blockX blockY)"
    by (rule sum.swap)
  also have "\<dots> = (\<Sum>(blockX, blockY) \<in> {x..<min (x + pixelSize) width} \<times> {y..<min (y + pixelSize) height}. f blockX blockY)"
    by (rule sum.cartesian_product)
  finally show ?thesis by (simp only: clippedBlock_rect)
qed

lemma color_row:
  "fold (colorAccumulate data width height blockY) [x..<x + n] (tR, tG, tB, c) =
     (if blockY < height
      then (tR + (\<Sum>blockX = x..<min (x + n) width. unat (data ! ((blockY * width + blockX) * 4))),
            tG + (\<Sum>blockX = x..<min (x + n) width. unat (data ! ((blockY * width + blockX) * 4 + 1))),
            tB + (\<Sum>blockX = x..<min (x + n) width. unat (data ! ((blockY * width + blockX) * 4 + 2))),
            c + (min (x + n) width - x))
      else (tR, tG, tB, c))"
proof (induction n)
  case 0
  then show ?case by simp
next
  case (Suc n)
  have step: "fold (colorAccumulate data width height blockY) [x..<x + Suc n] (tR, tG, tB, c)
        = colorAccumulate data width height blockY (x + n)
            (fold (colorAccumulate data width height blockY) [x..<x + n] (tR, tG, tB, c))"
    by simp
  show ?case
  proof (cases "x + n < width")
    case True
    then have m: "min (x + Suc n) width = Suc (x + n)" "min (x + n) width = x + n" by simp_all
    show ?thesis
      unfolding step Suc.IH m using True by (simp add: colorAccumulate_def Let_def)
  next
    case False
    then have m: "min (x + Suc n) width = width" "min (x + n) width = width" by simp_all
    show ?thesis
      unfolding step Suc.IH m using False by (simp add: colorAccumulate_def Let_def)
  qed
qed

lemma color_rows:
  "fold (\<lambda>blockY. fold (colorAccumulate data width height blockY) [x..<x + n]) [y..<y + m] (tR, tG, tB, c) =
     (tR + (\<Sum>blockY = y..<min (y + m) height. \<Sum>blockX = x..<min (x + n) width. unat (data ! ((blockY * width + blockX) * 4))),
      tG + (\<Sum>blockY = y..<min (y + m) height. \<Sum>blockX = x..<min (x + n) width. unat (data ! ((blockY * width + blockX) * 4 + 1))),
      tB + (\<Sum>blockY = y..<min (y + m) height. \<Sum>blockX = x..<min (x + n) width. unat (data ! ((blockY * width + blockX) * 4 + 2))),
      c + (min (x + n) width - x) * (min (y + m) height - y))"
proof (induction m)
  case 0
  then show ?case by simp
next
  case (Suc m)
  have step: "fold (\<lambda>blockY. fold (colorAccumulate data width height blockY) [x..<x + n]) [y..<y + Suc m] (tR, tG, tB, c)
        = fold (colorAccumulate data width height (y + m)) [x..<x + n]
            (fold (\<lambda>blockY. fold (colorAccumulate data width height blockY) [x..<x + n]) [y..<y + m] (tR, tG, tB, c))"
    by simp
  show ?case
  proof (cases "y + m < height")
    case True
    then have h: "min (y + Suc m) height = Suc (y + m)" "min (y + m) height = y + m" by simp_all
    show ?thesis
      unfolding step Suc.IH color_row h using True by (simp add: add_ac)
  next
    case False
    then have h: "min (y + Suc m) height = height" "min (y + m) height = height" by simp_all
    show ?thesis
      unfolding step Suc.IH color_row h using False by simp
  qed
qed

lemma colorBlock_sums:
  "colorBlock data width height pixelSize x y =
     ((\<Sum>(blockX, blockY) \<in> clippedBlock width height pixelSize x y. unat (data ! ((blockY * width + blockX) * 4))),
      (\<Sum>(blockX, blockY) \<in> clippedBlock width height pixelSize x y. unat (data ! ((blockY * width + blockX) * 4 + 1))),
      (\<Sum>(blockX, blockY) \<in> clippedBlock width height pixelSize x y. unat (data ! ((blockY * width + blockX) * 4 + 2))),
      card (clippedBlock width height pixelSize x y))"
  unfolding colorBlock_def color_rows sum_clippedBlock card_clippedBlock by simp

lemma brightness_row:
  "fold (brightnessAccumulate data width height blockY) [x..<x + n] (t, c) =
     (if blockY < height
      then (t + (\<Sum>blockX = x..<min (x + n) width.
                   brightness (byteVal (data ! ((blockY * width + blockX) * 4)))
                              (byteVal (data ! ((blockY * width + blockX) * 4 + 1)))
                              (byteVal (data ! ((blockY * width + blockX) * 4 + 2)))),
            c + (min (x + n) width - x))
      else (t, c))"
proof (induction n)
  case 0
  then show ?case by simp
next
  case (Suc n)
  have step: "fold (brightnessAccumulate data width height blockY) [x..<x + Suc n] (t, c)
        = brightnessAccumulate data width height blockY (x + n)
            (fold (brightnessAccumulate data width height blockY) [x..<x + n] (t, c))"
    by simp
  show ?case
  proof (cases "x + n < width")
    case True
    then have m: "min (x + Suc n) width = Suc (x + n)" "min (x + n) width = x + n" by simp_all
    show ?thesis
      unfolding step Suc.IH m using True by (simp add: brightnessAccumulate_def Let_def)
  next
    case False
    then have m: "min (x + Suc n) width = width" "min (x + n) width = width" by simp_all
    show ?thesis
      unfolding step Suc.IH m using False by (simp add: brightnessAccumulate_def Let_def)
  qed
qed

lemma brightness_rows:
  "fold (\<lambda>blockY. fold (brightnessAccumulate data width height blockY) [x..<x + n]) [y..<y + m] (t, c) =
     (t + (\<Sum>blockY = y..<min (y + m) height. \<Sum>blockX = x..<min (x + n) width.
             brightness (byteVal (data ! ((blockY * width + blockX) * 4)))
                        (byteVal (data ! ((blockY * width + blockX) * 4 + 1)))
                        (byteVal (data ! ((blockY * width + blockX) * 4 + 2)))),
      c + (min (x + n) width - x) * (min (y + m) height - y))"
proof (induction m)
  case 0
  then show ?case by simp
next
  case (Suc m)
  have step: "fold (\<lambda>blockY. fold (brightnessAccumulate data width height blockY) [x..<x + n]) [y..<y + Suc m] (t, c)
        = fold (brightnessAccumulate data width height (y + m)) [x..<x + n]
            (fold (\<lambda>blockY. fold (brightnessAccumulate data width height blockY) [x..<x + n]) [y..<y + m] (t, c))"
    by simp
  show ?case
  proof (cases "y + m < height")
    case True
    then have h: "min (y + Suc m) height = Suc (y + m)" "min (y + m) height = y + m" by simp_all
    show ?thesis
      unfolding step Suc.IH brightness_row h using True by (simp add: add_ac)
  next
    case False
    then have h: "min (y + Suc m) height = height" "min (y + m) height = height" by simp_all
    show ?thesis
      unfolding step Suc.IH brightness_row h using False by simp
  qed
qed

lemma brightnessBlock_sums:
  "brightnessBlock data width height pixelSize x y =
     ((\<Sum>(blockX, blockY) \<in> clippedBlock width height pixelSize x y.
         brightness (byteVal (data ! ((blockY * width + blockX) * 4)))
                    (byteVal (data ! ((blockY * width + blockX) * 4 + 1)))
                    (byteVal (data ! ((blockY * width + blockX) * 4 + 2)))),
      card (clippedBlock width height pixelSize x y))"
  unfolding brightnessBlock_def brightness_rows sum_clippedBlock card_clippedBlock by simp


lemma clippedBlock_nonempty:
  "0 < card (clippedBlock width height pixelSize x y) \<longleftrightarrow> x < width \<and> y < height \<and> 0 < pixelSize"
  by (auto simp: card_clippedBlock)

lemma real_sum_clipped:
  "real (\<Sum>(blockX, blockY) \<in> region. unat (data ! ((blockY * width + blockX) * 4 + channel)))
   = (\<Sum>(blockX, blockY) \<in> region. channelAt data width channel blockX blockY)"
  by (simp add: channelAt_def split_def)

subsection \<open>The blocks the loops visit\<close>

lemma indicesFrom_set:
  assumes "0 < stride"
  shows "set (indicesFrom (k * stride) stride bound) = {i. k * stride \<le> i \<and> i < bound \<and> stride dvd i}"
  using assms
proof (induction "k * stride" stride bound arbitrary: k rule: indicesFrom.induct)
  case (1 stride bound)
  show ?case
  proof (cases "k * stride < bound")
    case True
    have next_k: "k * stride + stride = Suc k * stride" by simp
    have IH: "set (indicesFrom (Suc k * stride) stride bound)
              = {i. Suc k * stride \<le> i \<and> i < bound \<and> stride dvd i}"
      using "1.hyps" [of "Suc k"] True "1.prems" by (simp add: add.commute)
    have unfold: "indicesFrom (k * stride) stride bound
                  = k * stride # indicesFrom (Suc k * stride) stride bound"
      using True "1.prems" by (subst indicesFrom.simps) (simp add: add.commute)
    have "{i. k * stride \<le> i \<and> i < bound \<and> stride dvd i}
          = insert (k * stride) {i. Suc k * stride \<le> i \<and> i < bound \<and> stride dvd i}"
    proof (intro set_eqI iffI)
      fix i assume "i \<in> {i. k * stride \<le> i \<and> i < bound \<and> stride dvd i}"
      then have a: "k * stride \<le> i" "i < bound" "stride dvd i" by simp_all
      from a(3) obtain m where m: "i = m * stride" by (auto simp: dvd_def mult.commute)
      with a(1) "1.prems" have "k \<le> m" by simp
      then consider "m = k" | "Suc k \<le> m" by linarith
      then have "i = k * stride \<or> Suc k * stride \<le> i"
      proof cases
        case 1
        then show ?thesis using m by simp
      next
        case 2
        then have "Suc k * stride \<le> m * stride" by (rule mult_le_mono1)
        then show ?thesis using m by simp
      qed
      with a show "i \<in> insert (k * stride) {i. Suc k * stride \<le> i \<and> i < bound \<and> stride dvd i}"
        by auto
    next
      fix i assume "i \<in> insert (k * stride) {i. Suc k * stride \<le> i \<and> i < bound \<and> stride dvd i}"
      then show "i \<in> {i. k * stride \<le> i \<and> i < bound \<and> stride dvd i}"
        using True by auto
    qed
    then show ?thesis by (simp only: unfold IH list.set)
  next
    case False
    then have "indicesFrom (k * stride) stride bound = []"
      by (subst indicesFrom.simps) simp
    then show ?thesis using False by auto
  qed
qed

lemma indicesFrom_0_set:
  "0 < stride \<Longrightarrow> set (indicesFrom 0 stride bound) = {i. i < bound \<and> stride dvd i}"
  using indicesFrom_set [of stride 0 bound] by simp

lemma indicesFrom_ge: "i' \<in> set (indicesFrom i stride bound) \<Longrightarrow> i \<le> i'"
proof (induction i stride bound rule: indicesFrom.induct)
  case (1 i stride bound)
  show ?case
  proof (cases "i < bound \<and> 0 < stride")
    case True
    then have "indicesFrom i stride bound = i # indicesFrom (i + stride) stride bound"
      by (subst indicesFrom.simps) simp
    with "1.prems" have "i' = i \<or> i' \<in> set (indicesFrom (i + stride) stride bound)" by simp
    then show ?thesis using "1.IH" [OF True] by auto
  next
    case False
    then have "indicesFrom i stride bound = []" by (subst indicesFrom.simps) simp
    with "1.prems" show ?thesis by simp
  qed
qed

lemma indicesFrom_sorted_distinct:
  "sorted (indicesFrom i stride bound) \<and> distinct (indicesFrom i stride bound)"
proof (induction i stride bound rule: indicesFrom.induct)
  case (1 i stride bound)
  show ?case
  proof (cases "i < bound \<and> 0 < stride")
    case True
    then have u: "indicesFrom i stride bound = i # indicesFrom (i + stride) stride bound"
      by (subst indicesFrom.simps) simp
    have "\<forall>i' \<in> set (indicesFrom (i + stride) stride bound). i < i'"
      using indicesFrom_ge [of _ "i + stride" stride bound] True by fastforce
    then show ?thesis using "1.IH" [OF True] unfolding u by auto
  next
    case False
    then have "indicesFrom i stride bound = []" by (subst indicesFrom.simps) simp
    then show ?thesis by simp
  qed
qed

lemma indicesFrom_blockStarts:
  assumes "0 < pixelSize"
  shows "indicesFrom 0 pixelSize bound = blockStarts pixelSize bound"
proof (rule sorted_distinct_set_unique)
  show "sorted (indicesFrom 0 pixelSize bound)" "distinct (indicesFrom 0 pixelSize bound)"
    using indicesFrom_sorted_distinct by blast+
  show "sorted (blockStarts pixelSize bound)" "distinct (blockStarts pixelSize bound)"
    by (simp_all add: blockStarts_def sorted_wrt_filter)
  show "set (indicesFrom 0 pixelSize bound) = set (blockStarts pixelSize bound)"
    using indicesFrom_0_set [OF assms, of bound] by (auto simp: blockStarts_def)
qed

lemma set_blockOrigins:
  "set (blockOrigins width height pixelSize)
   = {(x, y). x < width \<and> y < height \<and> pixelSize dvd x \<and> pixelSize dvd y}"
  by (auto simp: blockOrigins_def blockStarts_def)

lemma concat_map_pairs:
  "concat (map g (concat (map (\<lambda>y. map (\<lambda>x. (x, y)) xs) ys)))
   = concat (map (\<lambda>y. concat (map (\<lambda>x. g (x, y)) xs)) ys)"
  by (induction ys) (simp_all add: o_def)

lemma map_pairs:
  "map g (concat (map (\<lambda>y. map (\<lambda>x. (x, y)) xs) ys))
   = concat (map (\<lambda>y. map (\<lambda>x. g (x, y)) xs) ys)"
  by (induction ys) (simp_all add: o_def)

lemma concat_blockOrigins:
  "concat (map g (blockOrigins width height pixelSize))
   = concat (map (\<lambda>y. concat (map (\<lambda>x. g (x, y)) (blockStarts pixelSize width)))
               (blockStarts pixelSize height))"
  unfolding blockOrigins_def by (rule concat_map_pairs)

lemma map_blockOrigins:
  "map g (blockOrigins width height pixelSize)
   = concat (map (\<lambda>y. map (\<lambda>x. g (x, y)) (blockStarts pixelSize width))
               (blockStarts pixelSize height))"
  unfolding blockOrigins_def by (rule map_pairs)

lemma block_loops:
  assumes "0 < pixelSize"
    and "\<And>x y. x < width \<Longrightarrow> y < height \<Longrightarrow> draw x y = g (x, y)"
  shows "concat (map (\<lambda>y. concat (map (\<lambda>x. draw x y) (indicesFrom 0 pixelSize width)))
                   (indicesFrom 0 pixelSize height))
         = concat (map g (blockOrigins width height pixelSize))"
proof -
  have inner: "concat (map (\<lambda>x. draw x y) (blockStarts pixelSize width))
               = concat (map (\<lambda>x. g (x, y)) (blockStarts pixelSize width))"
    if "y \<in> set (blockStarts pixelSize height)" for y
  proof -
    from that have y: "y < height" by (simp add: blockStarts_def)
    have "map (\<lambda>x. draw x y) (blockStarts pixelSize width)
          = map (\<lambda>x. g (x, y)) (blockStarts pixelSize width)"
      by (rule map_cong) (simp_all add: blockStarts_def assms(2) y)
    then show ?thesis by (rule arg_cong [where f = concat])
  qed
  have "map (\<lambda>y. concat (map (\<lambda>x. draw x y) (blockStarts pixelSize width)))
          (blockStarts pixelSize height)
        = map (\<lambda>y. concat (map (\<lambda>x. g (x, y)) (blockStarts pixelSize width)))
            (blockStarts pixelSize height)"
    by (rule map_cong) (simp_all add: inner)
  then show ?thesis
    by (simp only: indicesFrom_blockStarts [OF assms(1)] concat_blockOrigins)
qed

lemma block_loops_results:
  assumes "0 < pixelSize"
    and "\<And>x y. x < width \<Longrightarrow> y < height \<Longrightarrow> draw x y = g (x, y)"
  shows "concat (map (\<lambda>y. map (\<lambda>x. draw x y) (indicesFrom 0 pixelSize width))
                   (indicesFrom 0 pixelSize height))
         = map g (blockOrigins width height pixelSize)"
proof -
  have inner: "map (\<lambda>x. draw x y) (blockStarts pixelSize width)
               = map (\<lambda>x. g (x, y)) (blockStarts pixelSize width)"
    if "y \<in> set (blockStarts pixelSize height)" for y
  proof -
    from that have y: "y < height" by (simp add: blockStarts_def)
    show ?thesis by (rule map_cong) (simp_all add: blockStarts_def assms(2) y)
  qed
  have "map (\<lambda>y. map (\<lambda>x. draw x y) (blockStarts pixelSize width)) (blockStarts pixelSize height)
        = map (\<lambda>y. map (\<lambda>x. g (x, y)) (blockStarts pixelSize width)) (blockStarts pixelSize height)"
    by (rule map_cong) (simp_all add: inner)
  then show ?thesis
    by (simp only: indicesFrom_blockStarts [OF assms(1)] map_blockOrigins)
qed

lemma sequenceDraws_Inr:
  "sequenceDraws (map (\<lambda>b. Inr (g b)) bs) = Inr (concat (map g bs))"
  by (induction bs) simp_all

subsection \<open>The quotient of total and count\<close>

lemma upt_offset: "[x..<x + n] = map (\<lambda>i. x + i) [0..<n]"
proof -
  have "map (\<lambda>i. x + i) [0..<n] = map (\<lambda>i. i + x) [0..<n]"
    by (rule map_cong) simp_all
  also have "\<dots> = [x..<n + x]" by (rule map_add_upt)
  also have "\<dots> = [x..<x + n]" by (simp only: add.commute)
  finally show ?thesis by (rule sym)
qed

lemma asciiBlock_brightnessBlock:
  "asciiBlock data width height charSize x y = brightnessBlock data width height charSize x y"
proof -
  have acc: "asciiAccumulate data width height x y j
             = brightnessAccumulate data width height (y + j) \<circ> (\<lambda>i. x + i)" for j
    by (rule ext, rule ext) (simp only: asciiAccumulate_def brightnessAccumulate_def o_def)
  have inner: "fold (asciiAccumulate data width height x y j) [0..<charSize]
               = fold (brightnessAccumulate data width height (y + j)) [x..<x + charSize]" for j
    by (simp only: acc upt_offset [of x] fold_map)
  have "fold (\<lambda>j. fold (asciiAccumulate data width height x y j) [0..<charSize]) [0..<charSize]
        = fold ((\<lambda>blockY. fold (brightnessAccumulate data width height blockY) [x..<x + charSize])
                \<circ> (\<lambda>j. y + j)) [0..<charSize]"
    by (simp only: inner o_def)
  also have "\<dots> = fold (\<lambda>blockY. fold (brightnessAccumulate data width height blockY) [x..<x + charSize])
                     [y..<y + charSize]"
    by (simp only: upt_offset [of y] fold_map)
  finally show ?thesis by (simp only: asciiBlock_def brightnessBlock_def)
qed

lemma brightnessBlock_regions:
  "brightnessBlock data width height pixelSize x y
   = ((\<Sum>(blockX, blockY) \<in> clippedBlock width height pixelSize x y.
         brightnessOfPixel data width blockX blockY),
      card (clippedBlock width height pixelSize x y))"
  unfolding brightnessBlock_sums brightnessOfPixel_def channelAt_def by simp

lemma brightnessBlock_average:
  "brightnessBlock data width height pixelSize x y
   = (real (card (clippedBlock width height pixelSize x y))
        * blockAverageBrightness data width height pixelSize x y,
      card (clippedBlock width height pixelSize x y))"
proof (cases "card (clippedBlock width height pixelSize x y) = 0")
  case True
  then have "clippedBlock width height pixelSize x y = {}"
    using finite_clippedBlock [of width height pixelSize x y] by simp
  then show ?thesis by (simp add: brightnessBlock_regions)
next
  case False
  then show ?thesis
    by (simp add: brightnessBlock_regions blockAverageBrightness_def regionAverage_def)
qed

lemma colorBlock_quotients:
  assumes "colorBlock data width height pixelSize x y = (totalR, totalG, totalB, count)"
  shows "count = card (clippedBlock width height pixelSize x y)"
    and "real totalR / real count = blockAverageColor data width height pixelSize 0 x y"
    and "real totalG / real count = blockAverageColor data width height pixelSize 1 x y"
    and "real totalB / real count = blockAverageColor data width height pixelSize 2 x y"
proof -
  let ?clip = "clippedBlock width height pixelSize x y"
  from assms have t: "totalR = (\<Sum>(blockX, blockY) \<in> ?clip. unat (data ! ((blockY * width + blockX) * 4 + 0)))"
    "totalG = (\<Sum>(blockX, blockY) \<in> ?clip. unat (data ! ((blockY * width + blockX) * 4 + 1)))"
    "totalB = (\<Sum>(blockX, blockY) \<in> ?clip. unat (data ! ((blockY * width + blockX) * 4 + 2)))"
    and c: "count = card ?clip"
    unfolding colorBlock_sums by simp_all
  show "count = card ?clip" by (rule c)
  show "real totalR / real count = blockAverageColor data width height pixelSize 0 x y"
    unfolding t(1) c real_sum_clipped blockAverageColor_def regionAverage_def by (rule refl)
  show "real totalG / real count = blockAverageColor data width height pixelSize 1 x y"
    unfolding t(2) c real_sum_clipped blockAverageColor_def regionAverage_def by (rule refl)
  show "real totalB / real count = blockAverageColor data width height pixelSize 2 x y"
    unfolding t(3) c real_sum_clipped blockAverageColor_def regionAverage_def by (rule refl)
qed

lemma brightness_quotient:
  assumes "0 < card (clippedBlock width height pixelSize x y)"
  shows "real (card (clippedBlock width height pixelSize x y))
           * blockAverageBrightness data width height pixelSize x y
         / real (card (clippedBlock width height pixelSize x y))
         = blockAverageBrightness data width height pixelSize x y"
  using assms by simp

lemma pixelateDraw_average:
  assumes "x < width" and "y < height" and "0 < pixelSize"
  shows "pixelateDraw data width height pixelSize x y
         = pixelateFill pixelSize x y (blockAverageColor data width height pixelSize 0 x y)
             (blockAverageColor data width height pixelSize 1 x y)
             (blockAverageColor data width height pixelSize 2 x y)"
proof -
  obtain totalR totalG totalB count where
    b: "colorBlock data width height pixelSize x y = (totalR, totalG, totalB, count)"
    by (cases "colorBlock data width height pixelSize x y") auto
  have "0 < count"
    using colorBlock_quotients(1) [OF b] clippedBlock_nonempty [of width height pixelSize x y] assms
    by simp
  then show ?thesis
    unfolding pixelateDraw_def b prod.case colorBlock_quotients(2-4) [OF b] by simp
qed

lemma halftoneColorDraw_average:
  assumes "x < width" and "y < height" and "0 < gridSize"
  shows "halftoneColorDraw data width height gridSize x y
         = Inr (halftoneColorDots gridSize x y
                  (cmykValues (blockAverageColor data width height gridSize 0 x y)
                     (blockAverageColor data width height gridSize 1 x y)
                     (blockAverageColor data width height gridSize 2 x y)))"
proof -
  obtain totalR totalG totalB count where
    b: "colorBlock data width height gridSize x y = (totalR, totalG, totalB, count)"
    by (cases "colorBlock data width height gridSize x y") auto
  have pos: "0 < count"
    using colorBlock_quotients(1) [OF b] clippedBlock_nonempty [of width height gridSize x y] assms
    by simp
  have cmyk: "rgbToCmyk r g bl = Inr (cmykValues r g bl)" for r g bl
    by (simp add: rgbToCmyk_def cmykValues_def divide_checked_def Let_def)
  show ?thesis
    unfolding halftoneColorDraw_def b prod.case Let_def colorBlock_quotients(2-4) [OF b] cmyk
    using pos by simp
qed

lemma brightness_draws:
  assumes "x < width" and "y < height" and "0 < pixelSize"
  shows "duotoneDraw data width height pixelSize threshold darkColor lightColor x y
         = duotoneFill pixelSize threshold darkColor lightColor x y
             (blockAverageBrightness data width height pixelSize x y)"
    and "halftoneSquaresDraw data width height pixelSize invert squareColor x y
         = halftoneSquare pixelSize invert squareColor x y
             (blockAverageBrightness data width height pixelSize x y)"
    and "halftoneCirclesDraw data width height pixelSize invert squareColor x y
         = halftoneCircle pixelSize invert squareColor x y
             (blockAverageBrightness data width height pixelSize x y)"
    and "halftoneLinesDraw data width height pixelSize invert squareColor orientation x y
         = halftoneLine pixelSize invert squareColor orientation x y
             (blockAverageBrightness data width height pixelSize x y)"
    and "asciiDraw data width height pixelSize brightnessSteps textColor boldFont userChars x y
         = asciiGlyph pixelSize brightnessSteps textColor boldFont userChars x y
             (blockAverageBrightness data width height pixelSize x y)"
proof -
  have pos: "0 < card (clippedBlock width height pixelSize x y)"
    using clippedBlock_nonempty [of width height pixelSize x y] assms by simp
  note q = brightness_quotient [OF pos, of data]
  show "duotoneDraw data width height pixelSize threshold darkColor lightColor x y
         = duotoneFill pixelSize threshold darkColor lightColor x y
             (blockAverageBrightness data width height pixelSize x y)"
    unfolding duotoneDraw_def brightnessBlock_average prod.case q using pos by simp
  show "halftoneSquaresDraw data width height pixelSize invert squareColor x y
         = halftoneSquare pixelSize invert squareColor x y
             (blockAverageBrightness data width height pixelSize x y)"
    unfolding halftoneSquaresDraw_def brightnessBlock_average prod.case q using pos by simp
  show "halftoneCirclesDraw data width height pixelSize invert squareColor x y
         = halftoneCircle pixelSize invert squareColor x y
             (blockAverageBrightness data width height pixelSize x y)"
    unfolding halftoneCirclesDraw_def brightnessBlock_average prod.case q using pos by simp
  show "halftoneLinesDraw data width height pixelSize invert squareColor orientation x y
         = halftoneLine pixelSize invert squareColor orientation x y
             (blockAverageBrightness data width height pixelSize x y)"
    unfolding halftoneLinesDraw_def brightnessBlock_average prod.case q using pos by simp
  show "asciiDraw data width height pixelSize brightnessSteps textColor boldFont userChars x y
         = asciiGlyph pixelSize brightnessSteps textColor boldFont userChars x y
             (blockAverageBrightness data width height pixelSize x y)"
    unfolding asciiDraw_def asciiBlock_brightnessBlock brightnessBlock_average prod.case q
    using pos by simp
qed

subsection \<open>The effects, block by block\<close>

lemma pixelate_processor_blocks:
  "pixelate_processor data width height pixelSizeParam
   = ClearRect 0 0 (real width) (real height) #
     concat (map (\<lambda>(x, y). pixelateFill (max 1 pixelSizeParam) x y
                     (blockAverageColor data width height (max 1 pixelSizeParam) 0 x y)
                     (blockAverageColor data width height (max 1 pixelSizeParam) 1 x y)
                     (blockAverageColor data width height (max 1 pixelSizeParam) 2 x y))
               (blockOrigins width height (max 1 pixelSizeParam)))"
proof -
  have pos: "0 < max 1 pixelSizeParam" by simp
  show ?thesis
    unfolding pixelate_processor_def Let_def
    by (subst block_loops [OF pos]) (simp_all only: prod.case pixelateDraw_average [OF _ _ pos])
qed

lemma duotone_pixelate_processor_blocks:
  "duotone_pixelate_processor data width height pixelSizeParam threshold darkColor lightColor
   = ClearRect 0 0 (real width) (real height) #
     concat (map (\<lambda>(x, y). duotoneFill (max 1 pixelSizeParam) threshold darkColor lightColor x y
                     (blockAverageBrightness data width height (max 1 pixelSizeParam) x y))
               (blockOrigins width height (max 1 pixelSizeParam)))"
proof -
  have pos: "0 < max 1 pixelSizeParam" by simp
  show ?thesis
    unfolding duotone_pixelate_processor_def Let_def
    by (subst block_loops [OF pos]) (simp_all only: prod.case brightness_draws [OF _ _ pos])
qed

lemma halftone_squares_processor_blocks:
  "halftone_squares_processor data width height gridSizeParam invert squareColor bgColor
   = FillRect (ColorString bgColor) 0 0 (real width) (real height) #
     concat (map (\<lambda>(x, y). halftoneSquare (max 1 gridSizeParam) invert squareColor x y
                     (blockAverageBrightness data width height (max 1 gridSizeParam) x y))
               (blockOrigins width height (max 1 gridSizeParam)))"
proof -
  have pos: "0 < max 1 gridSizeParam" by simp
  show ?thesis
    unfolding halftone_squares_processor_def Let_def
    by (subst block_loops [OF pos]) (simp_all only: prod.case brightness_draws [OF _ _ pos])
qed

lemma halftone_circles_processor_blocks:
  "halftone_circles_processor data width height gridSizeParam invert dotColor bgColor
   = FillRect (ColorString bgColor) 0 0 (real width) (real height) #
     concat (map (\<lambda>(x, y). halftoneCircle (max 1 gridSizeParam) invert dotColor x y
                     (blockAverageBrightness data width height (max 1 gridSizeParam) x y))
               (blockOrigins width height (max 1 gridSizeParam)))"
proof -
  have pos: "0 < max 1 gridSizeParam" by simp
  show ?thesis
    unfolding halftone_circles_processor_def Let_def
    by (subst block_loops [OF pos]) (simp_all only: prod.case brightness_draws [OF _ _ pos])
qed

lemma halftone_lines_processor_blocks:
  "halftone_lines_processor data width height gridSizeParam orientation invert lineColor bgColor
   = FillRect (ColorString bgColor) 0 0 (real width) (real height) #
     concat (map (\<lambda>(x, y). halftoneLine (max 1 gridSizeParam) invert lineColor orientation x y
                     (blockAverageBrightness data width height (max 1 gridSizeParam) x y))
               (blockOrigins width height (max 1 gridSizeParam)))"
proof -
  have pos: "0 < max 1 gridSizeParam" by simp
  show ?thesis
    unfolding halftone_lines_processor_def Let_def
    by (subst block_loops [OF pos]) (simp_all only: prod.case brightness_draws [OF _ _ pos])
qed

lemma ascii_art_processor_blocks:
  "ascii_art_processor data width height charSizeParam brightnessSteps textColor bgColor boldFont
     userChars
   = FillRect (ColorString bgColor) 0 0 (real width) (real height) #
     concat (map (\<lambda>(x, y). asciiGlyph (max 1 charSizeParam) brightnessSteps textColor boldFont
                     userChars x y
                     (blockAverageBrightness data width height (max 1 charSizeParam) x y))
               (blockOrigins width height (max 1 charSizeParam)))"
proof -
  have pos: "0 < max 1 charSizeParam" by simp
  show ?thesis
    unfolding ascii_art_processor_def Let_def
    by (subst block_loops [OF pos]) (simp_all only: prod.case brightness_draws [OF _ _ pos])
qed

lemma halftone_color_processor_blocks:
  "halftone_color_processor data width height gridSizeParam bgColor
   = Inr ([FillRect (ColorString bgColor) 0 0 (real width) (real height), SetComposite ''darken'']
          @ concat (map (\<lambda>(x, y). halftoneColorDots (max 2 gridSizeParam) x y
                          (cmykValues
                             (blockAverageColor data width height (max 2 gridSizeParam) 0 x y)
                             (blockAverageColor data width height (max 2 gridSizeParam) 1 x y)
                             (blockAverageColor data width height (max 2 gridSizeParam) 2 x y)))
                      (blockOrigins width height (max 2 gridSizeParam)))
          @ [SetComposite ''source-over''])"
proof -
  let ?S = "max 2 gridSizeParam"
  let ?g = "\<lambda>(x, y). halftoneColorDots ?S x y
                          (cmykValues
                             (blockAverageColor data width height ?S 0 x y)
                             (blockAverageColor data width height ?S 1 x y)
                             (blockAverageColor data width height ?S 2 x y))"
  have pos: "0 < ?S" by simp
  have loops: "concat (map (\<lambda>y. map (\<lambda>x. halftoneColorDraw data width height ?S x y)
                                   (indicesFrom 0 ?S width))
                        (indicesFrom 0 ?S height))
               = map (\<lambda>b. Inr (?g b)) (blockOrigins width height ?S)"
    by (rule block_loops_results [OF pos])
       (simp only: prod.case halftoneColorDraw_average [OF _ _ pos])
  show ?thesis
    unfolding halftone_color_processor_def Let_def loops sequenceDraws_Inr by simp
qed

lemma asciiBlock_regions:
  "asciiBlock data width height charSize x y
   = ((\<Sum>(blockX, blockY) \<in> clippedBlock width height charSize x y.
         brightnessOfPixel data width blockX blockY),
      card (clippedBlock width height charSize x y))"
  by (simp only: asciiBlock_brightnessBlock brightnessBlock_regions)


text \<open>
  Claim C2. Every block-quantisation effect (Pixelate, Duotone pixelate, the four
  Halftone effects and ASCII art) averages each block over its in-bounds part only.

  For the block of size \<open>pixelSize\<close> at \<open>(x, y)\<close>, the three block loops of the source
  (\<open>colorBlock\<close> of Pixelate and Halftone colours, \<open>brightnessBlock\<close> of Duotone
  pixelate and Halftone squares, circles and lines, \<open>asciiBlock\<close> of ASCII art)
  accumulate exactly the pixels of \<open>clippedBlock\<close>: the totals are the sums over that
  region and the divisor \<open>count\<close> is the number of its positions,
  \<open>(min (x + pixelSize) width - x) * (min (y + pixelSize) height - y)\<close>, which is positive
  exactly when the origin lies in the buffer and the size is positive.

  The blocks an effect visits are those of \<open>blockOrigins\<close>: every origin in the buffer
  whose coordinates are multiples of the block size, so also the partial blocks at the
  right and bottom edges when the size does not divide the dimension. Each effect issues
  its first drawing command and then, for every such block in row order, the drawing of
  the source applied to the average over the clipped block: of the three colour channels
  for Pixelate (which takes their integer parts, \<^verbatim>\<open>Math.floor\<close>) and Halftone colours
  (through \<open>rgbToCmyk\<close>, which never fails here), of the luminance for the other five.
  The block size is the parameter raised to at least 1, and to at least 2 for Halftone
  colours.
\<close>

theorem block_average_over_clipped_region:
  "colorBlock data width height pixelSize x y
     = ((\<Sum>(blockX, blockY) \<in> clippedBlock width height pixelSize x y.
           unat (data ! ((blockY * width + blockX) * 4))),
        (\<Sum>(blockX, blockY) \<in> clippedBlock width height pixelSize x y.
           unat (data ! ((blockY * width + blockX) * 4 + 1))),
        (\<Sum>(blockX, blockY) \<in> clippedBlock width height pixelSize x y.
           unat (data ! ((blockY * width + blockX) * 4 + 2))),
        card (clippedBlock width height pixelSize x y))
   \<and> brightnessBlock data width height pixelSize x y
     = ((\<Sum>(blockX, blockY) \<in> clippedBlock width height pixelSize x y.
           brightnessOfPixel data width blockX blockY),
        card (clippedBlock width height pixelSize x y))
   \<and> asciiBlock data width height pixelSize x y
     = ((\<Sum>(blockX, blockY) \<in> clippedBlock width height pixelSize x y.
           brightnessOfPixel data width blockX blockY),
        card (clippedBlock width height pixelSize x y))
   \<and> card (clippedBlock width height pixelSize x y)
     = (min (x + pixelSize) width - x) * (min (y + pixelSize) height - y)
   \<and> (0 < card (clippedBlock width height pixelSize x y) \<longleftrightarrow> x < width \<and> y < height \<and> 0 < pixelSize)
   \<and> set (blockOrigins width height pixelSize)
     = {(originX, originY). originX < width \<and> originY < height
                           \<and> pixelSize dvd originX \<and> pixelSize dvd originY}
   \<and> pixelate_processor data width height sizeParam
     = ClearRect 0 0 (real width) (real height) #
       concat (map (\<lambda>(originX, originY). pixelateFill (max 1 sizeParam) originX originY
                       (blockAverageColor data width height (max 1 sizeParam) 0 originX originY)
                       (blockAverageColor data width height (max 1 sizeParam) 1 originX originY)
                       (blockAverageColor data width height (max 1 sizeParam) 2 originX originY))
                 (blockOrigins width height (max 1 sizeParam)))
   \<and> duotone_pixelate_processor data width height sizeParam threshold darkColor lightColor
     = ClearRect 0 0 (real width) (real height) #
       concat (map (\<lambda>(originX, originY).
                       duotoneFill (max 1 sizeParam) threshold darkColor lightColor originX originY
                         (blockAverageBrightness data width height (max 1 sizeParam) originX originY))
                 (blockOrigins width height (max 1 sizeParam)))
   \<and> halftone_squares_processor data width height sizeParam invert squareColor bgColor
     = FillRect (ColorString bgColor) 0 0 (real width) (real height) #
       concat (map (\<lambda>(originX, originY).
                       halftoneSquare (max 1 sizeParam) invert squareColor originX originY
                         (blockAverageBrightness data width height (max 1 sizeParam) originX originY))
                 (blockOrigins width height (max 1 sizeParam)))
   \<and> halftone_circles_processor data width height sizeParam invert dotColor bgColor
     = FillRect (ColorString bgColor) 0 0 (real width) (real height) #
       concat (map (\<lambda>(originX, originY).
                       halftoneCircle (max 1 sizeParam) invert dotColor originX originY
                         (blockAverageBrightness data width height (max 1 sizeParam) originX originY))
                 (blockOrigins width height (max 1 sizeParam)))
   \<and> halftone_lines_processor data width height sizeParam orientation invert lineColor bgColor
     = FillRect (ColorString bgColor) 0 0 (real width) (real height) #
       concat (map (\<lambda>(originX, originY).
                       halftoneLine (max 1 sizeParam) invert lineColor orientation originX originY
                         (blockAverageBrightness data width height (max 1 sizeParam) originX originY))
                 (blockOrigins width height (max 1 sizeParam)))
   \<and> halftone_color_processor data width height sizeParam bgColor
     = Inr ([FillRect (ColorString bgColor) 0 0 (real width) (real height), SetComposite ''darken'']
            @ concat (map (\<lambda>(originX, originY).
                            halftoneColorDots (max 2 sizeParam) originX originY
                              (cmykValues
                                 (blockAverageColor data width height (max 2 sizeParam) 0 originX originY)
                                 (blockAverageColor data width height (max 2 sizeParam) 1 originX originY)
                                 (blockAverageColor data width height (max 2 sizeParam) 2 originX originY)))
                        (blockOrigins width height (max 2 sizeParam)))
            @ [SetComposite ''source-over''])
   \<and> ascii_art_processor data width height sizeParam brightnessSteps textColor bgColor boldFont
       userChars
     = FillRect (ColorString bgColor) 0 0 (real width) (real height) #
       concat (map (\<lambda>(originX, originY).
                       asciiGlyph (max 1 sizeParam) brightnessSteps textColor boldFont userChars
                         originX originY
                         (blockAverageBrightness data width height (max 1 sizeParam) originX originY))
                 (blockOrigins width height (max 1 sizeParam)))"
  by (intro conjI)
     (rule colorBlock_sums brightnessBlock_regions asciiBlock_regions card_clippedBlock
        clippedBlock_nonempty set_blockOrigins pixelate_processor_blocks
        duotone_pixelate_processor_blocks halftone_squares_processor_blocks
        halftone_circles_processor_blocks halftone_lines_processor_blocks
        halftone_color_processor_blocks ascii_art_processor_blocks)+


text \<open>
  A 3 by 2 buffer with block size 2: the blocks are at \<open>(0, 0)\<close> and \<open>(2, 0)\<close>. The
  trailing block at \<open>(2, 0)\<close> holds two pixels, \<open>(201, 100, 0)\<close> and \<open>(100, 101, 3)\<close>,
  and is filled with \<open>rgb(150, 100, 1)\<close>.
\<close>

lemma partial_block_example_eval:
  "pixelate_processor [10, 20, 30, 255, 50, 60, 70, 255, 201, 100, 0, 255,
                       11, 21, 31, 255, 51, 61, 71, 255, 100, 101, 3, 255] 3 2 2
   = [ClearRect 0 0 3 2, FillRect (Rgb 30 40 50) 0 0 2 2, FillRect (Rgb 150 100 1) 2 0 2 2]"
  by code_simp

lemma partial_block_origins_eval: "blockOrigins 3 2 2 = [(0, 0), (2, 0)]"
  by code_simp

theorem block_average_over_clipped_region_witness:
  "card (clippedBlock 3 2 2 2 0) = 2 \<and>
   pixelateFill 2 0 0
     (blockAverageColor [10, 20, 30, 255, 50, 60, 70, 255, 201, 100, 0, 255,
                         11, 21, 31, 255, 51, 61, 71, 255, 100, 101, 3, 255] 3 2 2 0 0 0)
     (blockAverageColor [10, 20, 30, 255, 50, 60, 70, 255, 201, 100, 0, 255,
                         11, 21, 31, 255, 51, 61, 71, 255, 100, 101, 3, 255] 3 2 2 1 0 0)
     (blockAverageColor [10, 20, 30, 255, 50, 60, 70, 255, 201, 100, 0, 255,
                         11, 21, 31, 255, 51, 61, 71, 255, 100, 101, 3, 255] 3 2 2 2 0 0)
   @ pixelateFill 2 2 0
     (blockAverageColor [10, 20, 30, 255, 50, 60, 70, 255, 201, 100, 0, 255,
                         11, 21, 31, 255, 51, 61, 71, 255, 100, 101, 3, 255] 3 2 2 0 2 0)
     (blockAverageColor [10, 20, 30, 255, 50, 60, 70, 255, 201, 100, 0, 255,
                         11, 21, 31, 255, 51, 61, 71, 255, 100, 101, 3, 255] 3 2 2 1 2 0)
     (blockAverageColor [10, 20, 30, 255, 50, 60, 70, 255, 201, 100, 0, 255,
                         11, 21, 31, 255, 51, 61, 71, 255, 100, 101, 3, 255] 3 2 2 2 2 0)
   = [FillRect (Rgb 30 40 50) 0 0 2 2, FillRect (Rgb 150 100 1) 2 0 2 2]"
proof -
  let ?data = "[10, 20, 30, 255, 50, 60, 70, 255, 201, 100, 0, 255,
                11, 21, 31, 255, 51, 61, 71, 255, 100, 101, 3, 255] :: byte list"
  note c2 = block_average_over_clipped_region
              [where data = ?data and width = 3 and height = 2 and pixelSize = 2 and x = 2 and y = 0
                 and sizeParam = 2]
  have size: "max 1 (2 :: nat) = 2" by simp
  have count: "card (clippedBlock 3 2 2 2 0) = 2"
    using c2 [THEN conjunct2, THEN conjunct2, THEN conjunct2, THEN conjunct1] by simp
  have fills: "pixelate_processor ?data 3 2 2
        = ClearRect 0 0 (real 3) (real 2) #
          concat (map (\<lambda>(originX, originY). pixelateFill 2 originX originY
                          (blockAverageColor ?data 3 2 2 0 originX originY)
                          (blockAverageColor ?data 3 2 2 1 originX originY)
                          (blockAverageColor ?data 3 2 2 2 originX originY))
                    [(0, 0), (2, 0)])"
    using c2 [THEN conjunct2, THEN conjunct2, THEN conjunct2, THEN conjunct2, THEN conjunct2,
              THEN conjunct2, THEN conjunct1]
    by (simp only: size partial_block_origins_eval)
  show ?thesis
    using count fills partial_block_example_eval by simp
qed

section \<open>Properties of palette dithering\<close>

lemma findClosestColor_in_palette:
  assumes "palette \<noteq> []"
  shows "\<exists>c \<in> set palette. findClosestColor col palette = Some c"
proof -
  from assms obtain a ps where pal: "palette = a # ps" by (cases palette) auto
  from findClosestColor_Cons [of a ps col] obtain i where
    "i < length (a # ps)" "findClosestColor col (a # ps) = Some ((a # ps) ! i)"
    by blast
  then show ?thesis unfolding pal using nth_mem by blast
qed

lemma findClosestColor_exact:
  assumes "col \<in> set palette"
  shows "findClosestColor col palette = Some col"
proof -
  from assms obtain a ps where pal: "palette = a # ps" by (cases palette) auto
  from findClosestColor_Cons [of a ps col] obtain i where
    i: "i < length palette" and r: "findClosestColor col palette = Some (palette ! i)"
    and mn: "\<forall>j < length palette. distance col (palette ! i) \<le> distance col (palette ! j)"
    unfolding pal by blast
  from assms obtain j where j: "j < length palette" "palette ! j = col"
    by (auto simp: in_set_conv_nth)
  from mn [rule_format, OF j(1)] have "distance col (palette ! i) \<le> 0"
    using distance_zero_iff [of col col] by (simp add: j(2))
  then have "distance col (palette ! i) = 0"
    using distance_nonneg [of col "palette ! i"] by linarith
  then have "palette ! i = col" by (simp add: distance_zero_iff)
  with r show ?thesis by simp
qed

lemma byteVal_toUint8Clamp:
  assumes "isByte v"
  shows "byteVal (toUint8Clamp v) = v"
proof -
  define n where "n = nat \<lfloor>v\<rfloor>"
  from assms have v0: "0 \<le> v" and v255: "v \<le> 255" and vi: "of_int \<lfloor>v\<rfloor> = v"
    by (simp_all add: isByte_def)
  have f0: "0 \<le> \<lfloor>v\<rfloor>" using v0 by simp
  have f255: "\<lfloor>v\<rfloor> \<le> 255" using v255 by (simp add: floor_le_iff)
  have "real n = of_int \<lfloor>v\<rfloor>" using f0 by (simp add: n_def)
  then have v: "v = real n" using vi by simp
  have n: "n \<le> 255" unfolding n_def using f255 by arith
  have "toUint8Clamp (real n) = of_nat n" using n by (rule toUint8Clamp_of_nat)
  moreover have "unat (of_nat n :: byte) = n" using n by (simp add: unat_of_nat)
  ultimately have "real (unat (toUint8Clamp (real n))) = real n" by simp
  then have "byteVal (toUint8Clamp (real n)) = real n" by simp
  then show ?thesis by (simp only: v)
qed

lemma throwing_Inr [simp]: "throwing body (Inr s) = body s"
  by (simp add: throwing_def)

lemma throwing_Inl [simp]: "throwing body (Inl e) = Inl e"
  by (simp add: throwing_def)

lemma ditherColorLoop_raster:
  "ditherColorLoop width height palette factor st =
     fold (\<lambda>p. throwing (ditherColorStep width height palette factor (p div width) (p mod width)))
       [0..<height * width] (Inr st)"
  unfolding ditherColorLoop_def by (rule fold_raster)

lemma ditherColorStep_output:
  assumes "palette \<noteq> []"
  shows "\<exists>newR newG newB pixelData'.
           (newR, newG, newB) \<in> set palette
         \<and> ditherColorStep width height palette factor y x (d, pixelData)
             = Inr (d[(y * width + x) * 4 := toUint8Clamp newR,
                      (y * width + x) * 4 + 1 := toUint8Clamp newG,
                      (y * width + x) * 4 + 2 := toUint8Clamp newB], pixelData')"
proof -
  let ?old = "(pixelData ! ((y * width + x) * 3), pixelData ! ((y * width + x) * 3 + 1),
               pixelData ! ((y * width + x) * 3 + 2))"
  from findClosestColor_in_palette [OF assms, of ?old] obtain c where
    c: "c \<in> set palette" "findClosestColor ?old palette = Some c" by blast
  obtain newR newG newB where n: "c = (newR, newG, newB)" by (cases c) auto
  have "ditherColorStep width height palette factor y x (d, pixelData)
        = Inr (d[(y * width + x) * 4 := toUint8Clamp newR,
                 (y * width + x) * 4 + 1 := toUint8Clamp newG,
                 (y * width + x) * 4 + 2 := toUint8Clamp newB],
               diffuseColor width height factor y x
                 (pixelData ! ((y * width + x) * 3) - newR,
                  pixelData ! ((y * width + x) * 3 + 1) - newG,
                  pixelData ! ((y * width + x) * 3 + 2) - newB) pixelData)"
    using c(2) unfolding n by (simp add: ditherColorStep_def Let_def)
  with c(1) show ?thesis unfolding n by blast
qed

lemma rgbAt_update_same:
  assumes "p * 4 + 2 < length d"
  shows "rgbAt (d[p * 4 := a, p * 4 + 1 := b, p * 4 + 2 := c]) p = (byteVal a, byteVal b, byteVal c)"
  using assms by (simp add: rgbAt_def)

lemma rgbAt_update_other:
  assumes "q \<noteq> p"
  shows "rgbAt (d[p * 4 := a, p * 4 + 1 := b, p * 4 + 2 := c]) q = rgbAt d q"
proof -
  have "q * 4 \<noteq> p * 4" "q * 4 \<noteq> p * 4 + 1" "q * 4 \<noteq> p * 4 + 2"
       "q * 4 + 1 \<noteq> p * 4" "q * 4 + 1 \<noteq> p * 4 + 1" "q * 4 + 1 \<noteq> p * 4 + 2"
       "q * 4 + 2 \<noteq> p * 4" "q * 4 + 2 \<noteq> p * 4 + 1" "q * 4 + 2 \<noteq> p * 4 + 2"
    using assms by presburger+
  then show ?thesis by (simp add: rgbAt_def)
qed

lemma applyDitheringColor_palette:
  assumes ne: "palette \<noteq> []" and bytes: "\<forall>c \<in> set palette. isByteColor c"
    and len: "length d = width * height * 4"
  shows "\<exists>d'. applyDitheringColor d width height palette factor = Inr d'
            \<and> length d' = length d
            \<and> (\<forall>p < width * height. rgbAt d' p \<in> set palette)"
proof -
  let ?f = "\<lambda>p. throwing (ditherColorStep width height palette factor (p div width) (p mod width))"
  let ?I = "\<lambda>p (s :: error + (byte list \<times> real list)).
              \<exists>d' pixelData'. s = Inr (d', pixelData') \<and> length d' = length d
                    \<and> (\<forall>q < p. rgbAt d' q \<in> set palette)"
  have "?I (height * width) (fold ?f [0..<height * width] (Inr (d, initPixelData d width height)))"
  proof (rule fold_upt_invariant [where I = ?I])
    show "?I 0 (Inr (d, initPixelData d width height))" by simp
  next
    fix p t
    assume p: "p < height * width" and t: "?I p t"
    from t obtain d1 pd1 where t1: "t = Inr (d1, pd1)" and l1: "length d1 = length d"
      and inv: "\<forall>q < p. rgbAt d1 q \<in> set palette" by blast
    have pos: "p div width * width + p mod width = p" by simp
    from ditherColorStep_output [OF ne, of width height factor "p div width" "p mod width" d1 pd1]
    obtain newR newG newB pd2 where
      mem: "(newR, newG, newB) \<in> set palette"
      and step: "ditherColorStep width height palette factor (p div width) (p mod width) (d1, pd1)
             = Inr (d1[p * 4 := toUint8Clamp newR, p * 4 + 1 := toUint8Clamp newG,
                       p * 4 + 2 := toUint8Clamp newB], pd2)"
      unfolding pos by blast
    let ?d2 = "d1[p * 4 := toUint8Clamp newR, p * 4 + 1 := toUint8Clamp newG,
                  p * 4 + 2 := toUint8Clamp newB]"
    from bytes mem have "isByteColor (newR, newG, newB)" by blast
    then have bv: "byteVal (toUint8Clamp newR) = newR" "byteVal (toUint8Clamp newG) = newG"
      "byteVal (toUint8Clamp newB) = newB"
      by (simp_all add: byteVal_toUint8Clamp)
    have inb: "p * 4 + 2 < length d1" using p l1 len by (simp add: mult.commute)
    have same: "rgbAt ?d2 p \<in> set palette"
      using mem by (simp only: rgbAt_update_same [OF inb] bv)
    have "rgbAt ?d2 q \<in> set palette" if "q < Suc p" for q
    proof (cases "q = p")
      case True
      then show ?thesis using same by simp
    next
      case False
      with that have "q < p" by simp
      with inv have "rgbAt d1 q \<in> set palette" by blast
      then show ?thesis by (simp only: rgbAt_update_other [OF False])
    qed
    then have "\<forall>q < Suc p. rgbAt ?d2 q \<in> set palette" by blast
    moreover have "length ?d2 = length d" using l1 by simp
    moreover have "?f p t = Inr (?d2, pd2)" using step by (simp add: t1)
    ultimately show "?I (Suc p) (?f p t)" by blast
  qed
  then obtain d' pd' where
    r: "fold ?f [0..<height * width] (Inr (d, initPixelData d width height)) = Inr (d', pd')"
    and l: "length d' = length d" and inv: "\<forall>q < height * width. rgbAt d' q \<in> set palette"
    by blast
  have "applyDitheringColor d width height palette factor = Inr d'"
    by (simp add: applyDitheringColor_def ditherColorLoop_raster r)
  with l inv show ?thesis by (simp add: mult.commute)
qed

lemma JUSTICE_PALETTE_bytes: "\<forall>c \<in> set JUSTICE_PALETTE. isByteColor c"
  by (simp add: JUSTICE_PALETTE_def isByte_def)

lemma JUSTICE_PALETTE_nonempty: "JUSTICE_PALETTE \<noteq> []"
  by (simp add: JUSTICE_PALETTE_def)

text \<open>
  Claim C9. For a non-empty palette \<open>findClosestColor\<close> returns an entry of the palette.
  Consequently, for a palette of 8-bit colours and a buffer of \<open>width * height\<close> pixels,
  palette dithering returns a buffer (it does not throw) of the same length in which the
  colour of every pixel is an entry of the palette; for the built-in effect, an entry of
  \<open>JUSTICE_PALETTE\<close>.
\<close>

theorem dithering_output_in_palette:
  assumes "palette \<noteq> []" and "\<forall>c \<in> set palette. isByteColor c"
    and "length d = width * height * 4"
  shows "(\<exists>c \<in> set palette. findClosestColor col palette = Some c)
       \<and> (\<exists>d'. applyDitheringColor d width height palette factor = Inr d'
              \<and> length d' = length d
              \<and> (\<forall>p < width * height. rgbAt d' p \<in> set palette))
       \<and> (\<exists>d'. dither_palette_processor d width height factor = Inr d'
              \<and> length d' = length d
              \<and> (\<forall>p < width * height. rgbAt d' p \<in> set JUSTICE_PALETTE))"
  using findClosestColor_in_palette [OF assms(1), of col]
    applyDitheringColor_palette [OF assms, of factor]
    applyDitheringColor_palette [OF JUSTICE_PALETTE_nonempty JUSTICE_PALETTE_bytes assms(3), of factor]
  unfolding dither_palette_processor_def by blast

text \<open>
  Two pixels, \<open>(200, 100, 50)\<close> and black, with factor 1: the first becomes orange, the
  second receives 7/16 of the error and stays black.
\<close>

lemma dithering_example_eval:
  "dither_palette_processor [200, 100, 50, 255, 0, 0, 0, 128] 2 1 1
   = Inr [255, 147, 0, 255, 0, 0, 0, 128]"
  by code_simp

theorem dithering_output_in_palette_witness:
  "JUSTICE_PALETTE \<noteq> [] \<and> length [200, 100, 50, 255, 0, 0, 0, 128 :: byte] = 2 * 1 * 4
   \<and> dither_palette_processor [200, 100, 50, 255, 0, 0, 0, 128] 2 1 1
       = Inr [255, 147, 0, 255, 0, 0, 0, 128]
   \<and> rgbAt [255, 147, 0, 255, 0, 0, 0, 128] 0 \<in> set JUSTICE_PALETTE
   \<and> rgbAt [255, 147, 0, 255, 0, 0, 0, 128] 1 \<in> set JUSTICE_PALETTE"
  using dithering_output_in_palette
          [OF JUSTICE_PALETTE_nonempty JUSTICE_PALETTE_bytes,
           of "[200, 100, 50, 255, 0, 0, 0, 128]" 2 1 "(0, 0, 0)" 1]
    dithering_example_eval
  by (simp add: rgbAt_def JUSTICE_PALETTE_def)


lemma initPixelData_nth:
  assumes "p < width * height" and "c < 3"
  shows "initPixelData d width height ! (p * 3 + c) = byteVal (d ! (p * 4 + c))"
proof -
  let ?n = "width * height"
  let ?f = "\<lambda>i (pixelData :: real list).
             pixelData[i * 3 := byteVal (d ! (i * 4)),
                       i * 3 + 1 := byteVal (d ! (i * 4 + 1)),
                       i * 3 + 2 := byteVal (d ! (i * 4 + 2))]"
  let ?I = "\<lambda>k (t :: real list). length t = ?n * 3
              \<and> (\<forall>q < k. t ! (q * 3) = byteVal (d ! (q * 4))
                        \<and> t ! (q * 3 + 1) = byteVal (d ! (q * 4 + 1))
                        \<and> t ! (q * 3 + 2) = byteVal (d ! (q * 4 + 2)))"
  have "?I ?n (fold ?f [0..<?n] (replicate (?n * 3) 0))"
  proof (rule fold_upt_invariant [where I = ?I])
    show "?I 0 (replicate (?n * 3) 0)" by simp
  next
    fix k t
    assume k: "k < ?n" and t: "?I k t"
    then have l: "length t = ?n * 3" by blast
    have inb: "k * 3 + 2 < length t" using k l by simp
    have "?f k t ! (q * 3) = byteVal (d ! (q * 4))
          \<and> ?f k t ! (q * 3 + 1) = byteVal (d ! (q * 4 + 1))
          \<and> ?f k t ! (q * 3 + 2) = byteVal (d ! (q * 4 + 2))" if "q < Suc k" for q
    proof (cases "q = k")
      case True
      then show ?thesis using inb by simp
    next
      case False
      with that have qk: "q < k" by simp
      then have "q * 3 + 2 < k * 3" by simp
      then show ?thesis using t qk by simp
    qed
    then show "?I (Suc k) (?f k t)" using l by simp
  qed
  then have all: "initPixelData d width height ! (p * 3) = byteVal (d ! (p * 4))"
    "initPixelData d width height ! (p * 3 + 1) = byteVal (d ! (p * 4 + 1))"
    "initPixelData d width height ! (p * 3 + 2) = byteVal (d ! (p * 4 + 2))"
    using assms(1) unfolding initPixelData_def by blast+
  from assms(2) consider "c = 0" | "c = 1" | "c = 2" by linarith
  then show ?thesis using all by cases simp_all
qed

lemma uniform_nth:
  assumes "p < length alphas"
  shows "pixelBytes (map (\<lambda>a. (r, g, b, a)) alphas) ! (p * 4) = r
       \<and> pixelBytes (map (\<lambda>a. (r, g, b, a)) alphas) ! (p * 4 + 1) = g
       \<and> pixelBytes (map (\<lambda>a. (r, g, b, a)) alphas) ! (p * 4 + 2) = b"
  using assms
proof (induction alphas arbitrary: p)
  case Nil
  then show ?case by simp
next
  case (Cons a alphas)
  then show ?case by (cases p) simp_all
qed

lemma addError_zero: "addError pixelData k (0, 0, 0) weight diffusionFactor = pixelData"
  by (simp add: addError_def)

lemma diffuseColor_zero: "diffuseColor width height factor y x (0, 0, 0) pixelData = pixelData"
  by (simp add: diffuseColor_def Let_def addError_zero)

lemma ditherColorStep_exact:
  assumes "(byteVal r, byteVal g, byteVal b) \<in> set palette"
    and "pixelData ! ((y * width + x) * 3) = byteVal r"
    and "pixelData ! ((y * width + x) * 3 + 1) = byteVal g"
    and "pixelData ! ((y * width + x) * 3 + 2) = byteVal b"
    and "d ! ((y * width + x) * 4) = r"
    and "d ! ((y * width + x) * 4 + 1) = g"
    and "d ! ((y * width + x) * 4 + 2) = b"
  shows "ditherColorStep width height palette factor y x (d, pixelData) = Inr (d, pixelData)"
proof -
  have f: "findClosestColor (byteVal r, byteVal g, byteVal b) palette = Some (byteVal r, byteVal g, byteVal b)"
    using assms(1) by (rule findClosestColor_exact)
  have d: "d[(y * width + x) * 4 := r, (y * width + x) * 4 + 1 := g, (y * width + x) * 4 + 2 := b] = d"
    by (simp only: assms(5-7) [symmetric] list_update_id)
  show ?thesis
    by (simp only: ditherColorStep_def Let_def prod.case assms(2-4) f option.case
          toUint8Clamp_byteVal d diff_self diffuseColor_zero)
qed

text \<open>
  Claim C6. For a buffer of \<open>width * height\<close> pixels that all carry one colour
  \<open>(r, g, b)\<close>, with any alpha values, where that colour is an entry of the palette:
  palette dithering returns the buffer as it was, so every pixel has that colour; and the
  loop ends with the scratch buffer it started with, every step having found error zero.
\<close>

theorem dithering_uniform_palette_color:
  assumes "length alphas = width * height"
    and "(byteVal r, byteVal g, byteVal b) \<in> set palette"
  shows "applyDitheringColor (pixelBytes (map (\<lambda>a. (r, g, b, a)) alphas)) width height palette factor
           = Inr (pixelBytes (map (\<lambda>a. (r, g, b, a)) alphas))
       \<and> ditherColorLoop width height palette factor
           (pixelBytes (map (\<lambda>a. (r, g, b, a)) alphas),
            initPixelData (pixelBytes (map (\<lambda>a. (r, g, b, a)) alphas)) width height)
           = Inr (pixelBytes (map (\<lambda>a. (r, g, b, a)) alphas),
                  initPixelData (pixelBytes (map (\<lambda>a. (r, g, b, a)) alphas)) width height)
       \<and> (\<forall>p < width * height.
             rgbAt (pixelBytes (map (\<lambda>a. (r, g, b, a)) alphas)) p = (byteVal r, byteVal g, byteVal b))"
proof -
  let ?d = "pixelBytes (map (\<lambda>a. (r, g, b, a)) alphas)"
  let ?pd = "initPixelData ?d width height"
  let ?f = "\<lambda>p. throwing (ditherColorStep width height palette factor (p div width) (p mod width))"
  let ?I = "\<lambda>(p :: nat) (s :: error + (byte list \<times> real list)). s = Inr (?d, ?pd)"
  have "?I (height * width) (fold ?f [0..<height * width] (Inr (?d, ?pd)))"
  proof (rule fold_upt_invariant [where I = ?I])
    show "?I 0 (Inr (?d, ?pd))" by simp
  next
    fix p t
    assume p: "p < height * width" and t: "?I p t"
    have pos: "p div width * width + p mod width = p" by simp
    have p': "p < width * height" using p by (simp add: mult.commute)
    have pa: "p < length alphas" using p' assms(1) by simp
    have "ditherColorStep width height palette factor (p div width) (p mod width) (?d, ?pd) = Inr (?d, ?pd)"
    proof (rule ditherColorStep_exact [OF assms(2)])
      show "?pd ! ((p div width * width + p mod width) * 3) = byteVal r"
        using initPixelData_nth [OF p', of 0 ?d] uniform_nth [OF pa, of r g b] by (simp add: pos)
      show "?pd ! ((p div width * width + p mod width) * 3 + 1) = byteVal g"
        using initPixelData_nth [OF p', of 1 ?d] uniform_nth [OF pa, of r g b] by (simp add: pos)
      show "?pd ! ((p div width * width + p mod width) * 3 + 2) = byteVal b"
        using initPixelData_nth [OF p', of 2 ?d] uniform_nth [OF pa, of r g b] by (simp add: pos)
      show "?d ! ((p div width * width + p mod width) * 4) = r"
        using uniform_nth [OF pa, of r g b] by (simp add: pos)
      show "?d ! ((p div width * width + p mod width) * 4 + 1) = g"
        using uniform_nth [OF pa, of r g b] by (simp add: pos)
      show "?d ! ((p div width * width + p mod width) * 4 + 2) = b"
        using uniform_nth [OF pa, of r g b] by (simp add: pos)
    qed
    then show "?I (Suc p) (?f p t)" using t by simp
  qed
  then have loop: "ditherColorLoop width height palette factor (?d, ?pd) = Inr (?d, ?pd)"
    by (simp only: ditherColorLoop_raster)
  have out: "applyDitheringColor ?d width height palette factor = Inr ?d"
    by (simp add: applyDitheringColor_def loop)
  have rgb: "\<forall>p < width * height. rgbAt ?d p = (byteVal r, byteVal g, byteVal b)"
    using uniform_nth [of _ alphas r g b] assms(1) by (simp add: rgbAt_def)
  from out loop rgb show ?thesis by blast
qed

theorem dithering_uniform_palette_color_witness:
  "length [255, 7 :: byte] = 2 * 1
   \<and> (byteVal 13, byteVal 33, byteVal 108) \<in> set JUSTICE_PALETTE
   \<and> applyDitheringColor (pixelBytes (map (\<lambda>a. (13, 33, 108, a)) [255, 7])) 2 1 JUSTICE_PALETTE (1 / 2)
       = Inr [13, 33, 108, 255, 13, 33, 108, 7]"
  using dithering_uniform_palette_color [of "[255, 7]" 2 1 13 33 108 JUSTICE_PALETTE "1 / 2"]
  by (simp add: JUSTICE_PALETTE_def)

section \<open>The diffusion step of the two dithering routines\<close>

lemma raster_index_eq:
  fixes a b w m n :: nat
  assumes "a < w" and "b < w"
  shows "(m * w + a = n * w + b) \<longleftrightarrow> (m = n \<and> a = b)"
proof
  assume eq: "m * w + a = n * w + b"
  have "(m * w + a) div w = m" "(m * w + a) mod w = a" using assms(1) by simp_all
  moreover have "(n * w + b) div w = n" "(n * w + b) mod w = b" using assms(2) by simp_all
  ultimately show "m = n \<and> a = b" using eq by metis
qed simp

lemma raster_index_less:
  fixes a b w h :: nat
  assumes "a < w" and "b < h"
  shows "b * w + a < w * h"
proof -
  have "b * w + a < b * w + w" using assms(1) by simp
  also have "\<dots> = Suc b * w" by simp
  also have "\<dots> \<le> h * w" using assms(2) by (intro mult_le_mono1) simp
  finally show ?thesis by (simp add: mult.commute)
qed

lemma channel_index_eq:
  fixes c c' Q N :: nat
  assumes "c < 3" and "c' < 3"
  shows "(Q * 3 + c = N * 3 + c') \<longleftrightarrow> (Q = N \<and> c = c')"
  using assms by presburger

lemma length_addError [simp]: "length (addError pd k err wt df) = length pd"
  by (cases err) (simp add: addError_def Let_def)

lemma addError_nth:
  assumes "N * 3 + 2 < length pd" and "c < 3"
  shows "addError pd (N * 3) err wt df ! (Q * 3 + c)
         = pd ! (Q * 3 + c) + (if Q = N then colorChannel err c * wt * df else 0)"
proof -
  obtain eR eG eB where err: "err = (eR, eG, eB)" by (cases err) auto
  have idx: "(Q * 3 + c = N * 3) \<longleftrightarrow> (Q = N \<and> c = 0)"
    "(Q * 3 + c = N * 3 + 1) \<longleftrightarrow> (Q = N \<and> c = 1)"
    "(Q * 3 + c = N * 3 + 2) \<longleftrightarrow> (Q = N \<and> c = 2)"
    using assms(2) by presburger+
  from assms(2) consider "c = 0" | "c = 1" | "c = 2" by linarith
  then show ?thesis
  proof cases
    case 1
    then show ?thesis using assms(1)
      by (simp add: err addError_def Let_def colorChannel_def nth_list_update)
  next
    case 2
    then show ?thesis using assms(1)
      by (simp add: err addError_def Let_def colorChannel_def nth_list_update)
  next
    case 3
    then show ?thesis using assms(1)
      by (simp add: err addError_def Let_def colorChannel_def nth_list_update)
  qed
qed

lemma addError_coord:
  assumes "a < width" and "b < height" and "x' < width" and "c < 3"
    and "length pd = width * height * 3"
  shows "addError pd ((b * width + a) * 3) err wt df ! ((y' * width + x') * 3 + c)
         = pd ! ((y' * width + x') * 3 + c)
           + (if x' = a \<and> y' = b then colorChannel err c * wt * df else 0)"
proof -
  have "b * width + a < width * height" using assms(1,2) by (rule raster_index_less)
  then have inb: "(b * width + a) * 3 + 2 < length pd" using assms(5) by simp
  have "(y' * width + x' = b * width + a) \<longleftrightarrow> (x' = a \<and> y' = b)"
    using raster_index_eq [OF assms(3) assms(1), of y' b] by auto
  then show ?thesis using addError_nth [OF inb assms(4), of err wt df "y' * width + x'"] by simp
qed

lemma guarded_addError_nth:
  assumes "g \<Longrightarrow> a < width \<and> b < height" and "x' < width" and "c < 3"
    and "length pd = width * height * 3"
  shows "(if g then addError pd ((b * width + a) * 3) err wt df else pd) ! ((y' * width + x') * 3 + c)
         = pd ! ((y' * width + x') * 3 + c)
           + (if g \<and> x' = a \<and> y' = b then colorChannel err c * wt * df else 0)"
proof (cases g)
  case True
  with assms(1) have "a < width" "b < height" by simp_all
  from addError_coord [OF this assms(2,3,4), of err wt df y'] True show ?thesis by simp
next
  case False
  then show ?thesis by simp
qed

lemma weight_sum:
  fixes x y x' y' width height :: nat and e df :: real
  assumes "x' < width" and "y' < height"
  shows "(if x + 1 < width \<and> x' = x + 1 \<and> y' = y then e * 7 * df else 0)
       + (if (y + 1 < height \<and> x > 0) \<and> x' = x - 1 \<and> y' = y + 1 then e * 3 * df else 0)
       + (if y + 1 < height \<and> x' = x \<and> y' = y + 1 then e * 5 * df else 0)
       + (if (y + 1 < height \<and> x + 1 < width) \<and> x' = x + 1 \<and> y' = y + 1 then e * 1 * df else 0)
       = diffusionWeight x y x' y' * e * df"
proof -
  have cA: "(x + 1 < width \<and> x' = x + 1 \<and> y' = y) \<longleftrightarrow> (x' = x + 1 \<and> y' = y)"
    using assms by auto
  have cB: "((y + 1 < height \<and> x > 0) \<and> x' = x - 1 \<and> y' = y + 1) \<longleftrightarrow> (x' + 1 = x \<and> y' = y + 1)"
    using assms by auto
  have cC: "(y + 1 < height \<and> x' = x \<and> y' = y + 1) \<longleftrightarrow> (x' = x \<and> y' = y + 1)"
    using assms by auto
  have cD: "((y + 1 < height \<and> x + 1 < width) \<and> x' = x + 1 \<and> y' = y + 1) \<longleftrightarrow> (x' = x + 1 \<and> y' = y + 1)"
    using assms by auto
  consider (A) "x' = x + 1" "y' = y" | (B) "x' + 1 = x" "y' = y + 1" | (C) "x' = x" "y' = y + 1"
    | (D) "x' = x + 1" "y' = y + 1"
    | (N) "\<not> (x' = x + 1 \<and> y' = y)" "\<not> (x' + 1 = x \<and> y' = y + 1)" "\<not> (x' = x \<and> y' = y + 1)"
          "\<not> (x' = x + 1 \<and> y' = y + 1)"
    by blast
  then show ?thesis
  proof cases
    case A
    then show ?thesis unfolding cA cB cC cD by (simp add: diffusionWeight_def)
  next
    case B
    then show ?thesis unfolding cA cB cC cD by (simp add: diffusionWeight_def)
  next
    case C
    then show ?thesis unfolding cA cB cC cD by (simp add: diffusionWeight_def)
  next
    case D
    then show ?thesis unfolding cA cB cC cD by (simp add: diffusionWeight_def)
  next
    case N
    then show ?thesis unfolding cA cB cC cD by (auto simp: diffusionWeight_def)
  qed
qed

lemma diffuseColor_nth:
  assumes x: "x < width" and y: "y < height" and x': "x' < width" and y': "y' < height"
    and c: "c < 3" and len: "length pixelData = width * height * 3"
  shows "diffuseColor width height factor y x err pixelData ! ((y' * width + x') * 3 + c)
         = pixelData ! ((y' * width + x') * 3 + c)
           + diffusionWeight x y x' y' / 16 * factor * colorChannel err c"
    and "length (diffuseColor width height factor y x err pixelData) = length pixelData"
proof -
  let ?k = "(y' * width + x') * 3 + c"
  let ?df = "factor / 16"
  let ?e = "colorChannel err c"
  define p1 where "p1 = (if x + 1 < width
                then addError pixelData ((y * width + (x + 1)) * 3) err 7 ?df else pixelData)"
  define p2 where "p2 = (if y + 1 < height \<and> x > 0
                then addError p1 (((y + 1) * width + (x - 1)) * 3) err 3 ?df else p1)"
  define p3 where "p3 = (if y + 1 < height
                then addError p2 (((y + 1) * width + x) * 3) err 5 ?df else p2)"
  define p4 where "p4 = (if y + 1 < height \<and> x + 1 < width
                then addError p3 (((y + 1) * width + (x + 1)) * 3) err 1 ?df else p3)"
  have i1: "(y * width + x) * 3 + 3 = (y * width + (x + 1)) * 3" by simp
  have i2: "(y * width + x) * 3 + width * 3 - 3 = ((y + 1) * width + (x - 1)) * 3" if "x > 0"
    using that by (cases x) (simp_all add: algebra_simps)
  have i3: "(y * width + x) * 3 + width * 3 = ((y + 1) * width + x) * 3" by (simp add: algebra_simps)
  have i4: "(y * width + x) * 3 + width * 3 + 3 = ((y + 1) * width + (x + 1)) * 3"
    by (simp add: algebra_simps)
  have q1: "(if x + 1 < width then addError pixelData ((y * width + x) * 3 + 3) err 7 ?df else pixelData) = p1"
    by (simp only: p1_def i1)
  have q2: "(if y + 1 < height \<and> x > 0 then addError p1 ((y * width + x) * 3 + width * 3 - 3) err 3 ?df else p1) = p2"
  proof (cases "x > 0")
    case True
    show ?thesis by (simp only: p2_def i2 [OF True])
  next
    case False
    then show ?thesis by (simp add: p2_def)
  qed
  have q3: "(if y + 1 < height then addError p2 ((y * width + x) * 3 + width * 3) err 5 ?df else p2) = p3"
    by (simp only: p3_def i3)
  have q4: "(if y + 1 < height \<and> x + 1 < width then addError p3 ((y * width + x) * 3 + width * 3 + 3) err 1 ?df else p3) = p4"
    by (simp only: p4_def i4)
  have res: "diffuseColor width height factor y x err pixelData = p4"
    by (simp only: diffuseColor_def Let_def q1 q2 q3 q4)
  have l1: "length p1 = width * height * 3" by (simp add: p1_def len)
  have l2: "length p2 = width * height * 3" by (simp add: p2_def l1)
  have l3: "length p3 = width * height * 3" by (simp add: p3_def l2)
  have l4: "length p4 = width * height * 3" by (simp add: p4_def l3)
  have n1: "p1 ! ?k = pixelData ! ?k + (if x + 1 < width \<and> x' = x + 1 \<and> y' = y then ?e * 7 * ?df else 0)"
    unfolding p1_def by (rule guarded_addError_nth [OF _ x' c len]) (use y in simp)
  have n2: "p2 ! ?k = p1 ! ?k + (if (y + 1 < height \<and> x > 0) \<and> x' = x - 1 \<and> y' = y + 1 then ?e * 3 * ?df else 0)"
    unfolding p2_def by (rule guarded_addError_nth [OF _ x' c l1]) (use x in simp)
  have n3: "p3 ! ?k = p2 ! ?k + (if y + 1 < height \<and> x' = x \<and> y' = y + 1 then ?e * 5 * ?df else 0)"
    unfolding p3_def by (rule guarded_addError_nth [OF _ x' c l2]) (use x in simp)
  have n4: "p4 ! ?k = p3 ! ?k + (if (y + 1 < height \<and> x + 1 < width) \<and> x' = x + 1 \<and> y' = y + 1 then ?e * 1 * ?df else 0)"
    unfolding p4_def by (rule guarded_addError_nth [OF _ x' c l3]) simp
  have "p4 ! ?k = pixelData ! ?k + diffusionWeight x y x' y' * ?e * ?df"
    unfolding n4 n3 n2 n1 using weight_sum [OF x' y', of x y ?e ?df] by (simp only: add.assoc)
  then show "diffuseColor width height factor y x err pixelData ! ?k
         = pixelData ! ?k + diffusionWeight x y x' y' / 16 * factor * ?e"
    by (simp add: res)
  show "length (diffuseColor width height factor y x err pixelData) = length pixelData"
    by (simp only: res l4 len)
qed

lemma guarded_update_nth:
  fixes gs :: "real list"
  assumes "g \<Longrightarrow> a < width \<and> b < height" and "x' < width" and "length gs = width * height"
  shows "(if g then gs[b * width + a := gs ! (b * width + a) + v] else gs) ! (y' * width + x')
         = gs ! (y' * width + x') + (if g \<and> x' = a \<and> y' = b then v else 0)"
proof (cases g)
  case True
  with assms(1) have a: "a < width" and b: "b < height" by simp_all
  have inb: "b * width + a < length gs" using raster_index_less [OF a b] assms(3) by simp
  have eq: "(b * width + a = y' * width + x') \<longleftrightarrow> (x' = a \<and> y' = b)"
    using raster_index_eq [OF a assms(2), of b y'] by auto
  show ?thesis using True inb by (simp add: nth_list_update eq)
next
  case False
  then show ?thesis by simp
qed

lemma diffuseBW_nth:
  assumes x: "x < width" and y: "y < height" and x': "x' < width" and y': "y' < height"
    and len: "length grayscale = width * height"
  shows "diffuseBW width height y x diffusionError grayscale ! (y' * width + x')
         = grayscale ! (y' * width + x') + diffusionWeight x y x' y' * diffusionError"
    and "length (diffuseBW width height y x diffusionError grayscale) = length grayscale"
proof -
  let ?k = "y' * width + x'"
  let ?e = "diffusionError"
  define g1 where "g1 = (if x + 1 < width
      then grayscale[y * width + (x + 1) := grayscale ! (y * width + (x + 1)) + ?e * 7] else grayscale)"
  define g2 where "g2 = (if y + 1 < height \<and> x > 0
      then g1[(y + 1) * width + (x - 1) := g1 ! ((y + 1) * width + (x - 1)) + ?e * 3] else g1)"
  define g3 where "g3 = (if y + 1 < height
      then g2[(y + 1) * width + x := g2 ! ((y + 1) * width + x) + ?e * 5] else g2)"
  define g4 where "g4 = (if y + 1 < height \<and> x + 1 < width
      then g3[(y + 1) * width + (x + 1) := g3 ! ((y + 1) * width + (x + 1)) + ?e * 1] else g3)"
  have i1: "y * width + x + 1 = y * width + (x + 1)" by simp
  have i2: "y * width + x + width - 1 = (y + 1) * width + (x - 1)" if "x > 0"
    using that by (cases x) simp_all
  have i3: "y * width + x + width = (y + 1) * width + x" by simp
  have i4: "y * width + x + width + 1 = (y + 1) * width + (x + 1)" by simp
  have q1: "(if x + 1 < width
      then grayscale[y * width + x + 1 := grayscale ! (y * width + x + 1) + ?e * 7] else grayscale) = g1"
    by (simp only: g1_def i1)
  have res: "diffuseBW width height y x diffusionError grayscale = g4"
  proof (cases "y + 1 < height")
    case h: True
    have q2: "(if x > 0 then g1[y * width + x + width - 1 := g1 ! (y * width + x + width - 1) + ?e * 3] else g1) = g2"
    proof (cases "x > 0")
      case True
      show ?thesis using h True by (simp only: g2_def i2 [OF True] simp_thms if_True)
    next
      case False
      then show ?thesis by (simp add: g2_def)
    qed
    have q3: "g2[y * width + x + width := g2 ! (y * width + x + width) + ?e * 5] = g3"
      using h by (simp only: g3_def i3 if_True)
    have q4: "(if x + 1 < width then g3[y * width + x + width + 1 := g3 ! (y * width + x + width + 1) + ?e * 1] else g3) = g4"
      using h by (simp only: g4_def i4 simp_thms)
    show ?thesis
      using h by (simp only: diffuseBW_def Let_def q1 q2 q3 q4 if_True)
  next
    case h: False
    have "g4 = g1" using h by (simp add: g4_def g3_def g2_def)
    then show ?thesis using h by (simp only: diffuseBW_def Let_def q1 if_False)
  qed
  have l1: "length g1 = width * height" by (simp add: g1_def len)
  have l2: "length g2 = width * height" by (simp add: g2_def l1)
  have l3: "length g3 = width * height" by (simp add: g3_def l2)
  have l4: "length g4 = width * height" by (simp add: g4_def l3)
  have n1: "g1 ! ?k = grayscale ! ?k + (if x + 1 < width \<and> x' = x + 1 \<and> y' = y then ?e * 7 else 0)"
    unfolding g1_def by (rule guarded_update_nth [OF _ x' len]) (use y in simp)
  have n2: "g2 ! ?k = g1 ! ?k + (if (y + 1 < height \<and> x > 0) \<and> x' = x - 1 \<and> y' = y + 1 then ?e * 3 else 0)"
    unfolding g2_def by (rule guarded_update_nth [OF _ x' l1]) (use x in simp)
  have n3: "g3 ! ?k = g2 ! ?k + (if y + 1 < height \<and> x' = x \<and> y' = y + 1 then ?e * 5 else 0)"
    unfolding g3_def by (rule guarded_update_nth [OF _ x' l2]) (use x in simp)
  have n4: "g4 ! ?k = g3 ! ?k + (if (y + 1 < height \<and> x + 1 < width) \<and> x' = x + 1 \<and> y' = y + 1 then ?e * 1 else 0)"
    unfolding g4_def by (rule guarded_update_nth [OF _ x' l3]) simp
  have "g4 ! ?k = grayscale ! ?k + diffusionWeight x y x' y' * ?e * 1"
    unfolding n4 n3 n2 n1 using weight_sum [OF x' y', of x y ?e 1] by (simp only: add.assoc mult_1_right)
  then show "diffuseBW width height y x diffusionError grayscale ! ?k
         = grayscale ! ?k + diffusionWeight x y x' y' * diffusionError"
    by (simp add: res)
  show "length (diffuseBW width height y x diffusionError grayscale) = length grayscale"
    by (simp only: res l4 len)
qed

lemma colorChannel_old:
  assumes "c < 3"
  shows "colorChannel (pd ! i - nR, pd ! (i + 1) - nG, pd ! (i + 2) - nB) c
         = pd ! (i + c) - colorChannel (nR, nG, nB) c"
proof -
  from assms consider "c = 0" | "c = 1" | "c = 2" by linarith
  then show ?thesis by cases (simp_all add: colorChannel_def)
qed

lemma applyDitheringBW_raster:
  "applyDitheringBW d width height factor darkColor lightColor =
     fst (fold (\<lambda>p. ditherBWStep width height factor darkColor lightColor (p div width) (p mod width))
            [0..<height * width] (d, initGrayscale d width height))"
  unfolding applyDitheringBW_def by (simp only: fold_raster)

text \<open>
  Claim C1. In both dithering routines the loops run the step for the pixels in raster
  order (the nested loops over \<open>y\<close> and \<open>x\<close> are one loop over the pixel index
  \<open>p = y * width + x\<close>). The step at an in-bounds pixel \<open>(x, y)\<close> changes the scratch
  value of an in-bounds pixel \<open>(x', y')\<close> (for palette dithering: of each channel \<open>c\<close>)
  by \<open>diffusionWeight x y x' y' / 16 * factor\<close> times the quantisation error, which is the
  scratch value at \<open>(x, y)\<close> before the step minus the quantised value (the channel of the
  palette colour found, or 255 or 0 in the two-colour routine). The weight is 7 for the
  right neighbour, 3 for below left, 5 for below, 1 for below right and 0 for every other
  pixel. The scratch buffer keeps its length and the formula covers each of its
  entries, so a neighbour outside the buffer receives nothing and no update wraps
  around to another row: in the last column no pixel is at \<open>x + 1\<close>, in the first column
  none is at \<open>x - 1\<close>, in the last row none is at \<open>y + 1\<close>.
\<close>

theorem error_diffusion_weights:
  assumes "x < width" and "y < height" and "x' < width" and "y' < height" and "c < 3"
    and "length pixelData = width * height * 3"
    and "length grayscale = width * height"
    and "findClosestColor (pixelData ! ((y * width + x) * 3), pixelData ! ((y * width + x) * 3 + 1),
           pixelData ! ((y * width + x) * 3 + 2)) palette = Some newColor"
  shows "(\<exists>d' pixelData'.
            ditherColorStep width height palette factor y x (d, pixelData) = Inr (d', pixelData')
          \<and> length pixelData' = length pixelData
          \<and> pixelData' ! ((y' * width + x') * 3 + c)
              = pixelData ! ((y' * width + x') * 3 + c)
                + diffusionWeight x y x' y' / 16 * factor
                  * (pixelData ! ((y * width + x) * 3 + c) - colorChannel newColor c))
       \<and> (\<exists>d' grayscale'.
            ditherBWStep width height factor darkColor lightColor y x (d, grayscale) = (d', grayscale')
          \<and> length grayscale' = length grayscale
          \<and> grayscale' ! (y' * width + x')
              = grayscale ! (y' * width + x')
                + diffusionWeight x y x' y' / 16 * factor
                  * (grayscale ! (y * width + x) - (if grayscale ! (y * width + x) > 127.5 then 255 else 0)))
       \<and> ditherColorLoop width height palette factor (d, pixelData)
           = fold (\<lambda>p. throwing (ditherColorStep width height palette factor (p div width) (p mod width)))
               [0..<height * width] (Inr (d, pixelData))
       \<and> applyDitheringBW d width height factor darkColor lightColor
           = fst (fold (\<lambda>p. ditherBWStep width height factor darkColor lightColor (p div width) (p mod width))
                    [0..<height * width] (d, initGrayscale d width height))"
proof -
  obtain nR nG nB where nc: "newColor = (nR, nG, nB)" by (cases newColor) auto
  let ?i = "(y * width + x) * 3"
  let ?err = "(pixelData ! ?i - nR, pixelData ! (?i + 1) - nG, pixelData ! (?i + 2) - nB)"
  have step: "ditherColorStep width height palette factor y x (d, pixelData)
        = Inr (d[(y * width + x) * 4 := toUint8Clamp nR,
                 (y * width + x) * 4 + 1 := toUint8Clamp nG,
                 (y * width + x) * 4 + 2 := toUint8Clamp nB],
               diffuseColor width height factor y x ?err pixelData)"
    using assms(8) unfolding nc by (simp add: ditherColorStep_def Let_def)
  have col: "\<exists>d' pixelData'.
            ditherColorStep width height palette factor y x (d, pixelData) = Inr (d', pixelData')
          \<and> length pixelData' = length pixelData
          \<and> pixelData' ! ((y' * width + x') * 3 + c)
              = pixelData ! ((y' * width + x') * 3 + c)
                + diffusionWeight x y x' y' / 16 * factor
                  * (pixelData ! ((y * width + x) * 3 + c) - colorChannel newColor c)"
    unfolding step nc
    using diffuseColor_nth [OF assms(1-6), of factor ?err] colorChannel_old [OF assms(5), of pixelData ?i nR nG nB]
    by simp
  obtain dR dG dB where dc: "darkColor = (dR, dG, dB)" by (cases darkColor) auto
  obtain lR lG lB where lc: "lightColor = (lR, lG, lB)" by (cases lightColor) auto
  let ?old = "grayscale ! (y * width + x)"
  let ?q = "?old - (if ?old > 127.5 then 255 else 0)"
  have bstep: "snd (ditherBWStep width height factor darkColor lightColor y x (d, grayscale))
        = diffuseBW width height y x (?q * factor / 16) grayscale"
    unfolding dc lc by (simp add: ditherBWStep_def Let_def)
  have bw: "\<exists>d' grayscale'.
            ditherBWStep width height factor darkColor lightColor y x (d, grayscale) = (d', grayscale')
          \<and> length grayscale' = length grayscale
          \<and> grayscale' ! (y' * width + x')
              = grayscale ! (y' * width + x')
                + diffusionWeight x y x' y' / 16 * factor * ?q"
  proof (intro exI conjI)
    show "ditherBWStep width height factor darkColor lightColor y x (d, grayscale)
          = (fst (ditherBWStep width height factor darkColor lightColor y x (d, grayscale)),
             diffuseBW width height y x (?q * factor / 16) grayscale)"
      using bstep by (metis prod.collapse)
    show "length (diffuseBW width height y x (?q * factor / 16) grayscale) = length grayscale"
      by (rule diffuseBW_nth(2) [OF assms(1-4) assms(7)])
    show "diffuseBW width height y x (?q * factor / 16) grayscale ! (y' * width + x')
          = grayscale ! (y' * width + x') + diffusionWeight x y x' y' / 16 * factor * ?q"
      using diffuseBW_nth(1) [OF assms(1-4) assms(7), of "?q * factor / 16"] by simp
  qed
  show ?thesis
    using col bw ditherColorLoop_raster [of width height palette factor "(d, pixelData)"]
      applyDitheringBW_raster [of d width height factor darkColor lightColor]
    by (simp only: simp_thms)
qed

theorem error_diffusion_weights_witness:
  "(0 :: nat) < 2 \<and> (1 :: nat) < 2
   \<and> length [200, 100, 50, 0, 0, 0, 0, 0, 0, 0, 0, 0 :: real] = 2 * 2 * 3
   \<and> length [130, 0, 0, 0 :: real] = 2 * 2
   \<and> findClosestColor (200, 100, 50) JUSTICE_PALETTE = Some (255, 147, 0)
   \<and> (\<exists>d' pixelData'.
         ditherColorStep 2 2 JUSTICE_PALETTE 1 0 0
           (replicate 16 0, [200, 100, 50, 0, 0, 0, 0, 0, 0, 0, 0, 0]) = Inr (d', pixelData')
       \<and> pixelData' ! 9 = - 55 / 16)
   \<and> (\<exists>d' grayscale'.
         ditherBWStep 2 2 1 (0, 0, 0) (255, 255, 255) 0 0 (replicate 16 0, [130, 0, 0, 0]) = (d', grayscale')
       \<and> grayscale' ! 3 = - 125 / 16)"
proof -
  have f: "findClosestColor (200, 100, 50) JUSTICE_PALETTE = Some (255, 147, 0)"
    by (simp add: findClosestColor_def JUSTICE_PALETTE_def)
  have "findClosestColor
          ([200, 100, 50, 0, 0, 0, 0, 0, 0, 0, 0, 0] ! ((0 * 2 + 0) * 3),
           [200, 100, 50, 0, 0, 0, 0, 0, 0, 0, 0, 0] ! ((0 * 2 + 0) * 3 + 1),
           [200, 100, 50, 0, 0, 0, 0, 0, 0, 0, 0, 0 :: real] ! ((0 * 2 + 0) * 3 + 2)) JUSTICE_PALETTE
        = Some (255, 147, 0)"
    using f by simp
  from error_diffusion_weights
    [where x = 0 and y = 0 and x' = 1 and y' = 1 and c = 0 and width = 2 and height = 2
       and pixelData = "[200, 100, 50, 0, 0, 0, 0, 0, 0, 0, 0, 0]" and grayscale = "[130, 0, 0, 0]"
       and palette = JUSTICE_PALETTE and newColor = "(255, 147, 0)" and factor = 1
       and d = "replicate 16 0" and darkColor = "(0, 0, 0)" and lightColor = "(255, 255, 255)",
     OF _ _ _ _ _ _ _ this]
  have "(\<exists>d' pixelData'.
         ditherColorStep 2 2 JUSTICE_PALETTE 1 0 0
           (replicate 16 0, [200, 100, 50, 0, 0, 0, 0, 0, 0, 0, 0, 0]) = Inr (d', pixelData')
       \<and> pixelData' ! 9 = - 55 / 16)
   \<and> (\<exists>d' grayscale'.
         ditherBWStep 2 2 1 (0, 0, 0) (255, 255, 255) 0 0 (replicate 16 0, [130, 0, 0, 0]) = (d', grayscale')
       \<and> grayscale' ! 3 = - 125 / 16)"
    by (auto simp: diffusionWeight_def colorChannel_def)
  with f show ?thesis by simp
qed

end
